theory Spec2Isabelle
  imports Complex_Main
begin

section \<open>Errors\<close>

text \<open>
  The exceptions that the code of \<^verbatim>\<open>search_model_proxyless.py\<close> can raise by itself:
  the \<^verbatim>\<open>assert\<close> of the constructor, a missing dictionary key, an index out of range,
  \<^verbatim>\<open>None\<close> passed where a size is expected, an error of a tensor primitive, and a local
  variable read before its assignment.
\<close>

datatype error = AssertionError | TypeError | KeyError | IndexError | RuntimeError | NameError

section \<open>Tensor values\<close>

text \<open>
  A tensor element is a finite number, one of the two infinities, or not-a-number. Finite
  values are computed with exact real arithmetic (rounding is not modelled); the special
  values follow IEEE 754. A tensor of shape \<open>(E, K)\<close> is the list of its \<open>E\<close> rows.
\<close>

datatype fp = Fin real | PInf | NInf | NaN

type_synonym matrix = "fp list list"

definition isinf :: "fp \<Rightarrow> bool" where
  "isinf x = (x = PInf \<or> x = NInf)"

definition isnan :: "fp \<Rightarrow> bool" where
  "isnan x = (x = NaN)"

fun fp_neg :: "fp \<Rightarrow> fp" where
  "fp_neg (Fin a) = Fin (- a)"
| "fp_neg PInf = NInf"
| "fp_neg NInf = PInf"
| "fp_neg NaN = NaN"

fun fp_add :: "fp \<Rightarrow> fp \<Rightarrow> fp" where
  "fp_add NaN y = NaN"
| "fp_add x NaN = NaN"
| "fp_add PInf NInf = NaN"
| "fp_add NInf PInf = NaN"
| "fp_add PInf y = PInf"
| "fp_add x PInf = PInf"
| "fp_add NInf y = NInf"
| "fp_add x NInf = NInf"
| "fp_add (Fin a) (Fin b) = Fin (a + b)"

definition fp_sub :: "fp \<Rightarrow> fp \<Rightarrow> fp" where
  "fp_sub x y = fp_add x (fp_neg y)"

fun fp_less :: "fp \<Rightarrow> fp \<Rightarrow> bool" where
  "fp_less (Fin a) (Fin b) = (a < b)"
| "fp_less NInf (Fin b) = True"
| "fp_less NInf PInf = True"
| "fp_less (Fin a) PInf = True"
| "fp_less x y = False"

text \<open>
  \<^verbatim>\<open>torch.any(torch.isinf(t))\<close> and \<^verbatim>\<open>torch.any(torch.isnan(t))\<close> on a matrix.
\<close>

definition any_isinf :: "matrix \<Rightarrow> bool" where
  "any_isinf t = (\<exists>row \<in> set t. \<exists>x \<in> set row. isinf x)"

definition any_isnan :: "matrix \<Rightarrow> bool" where
  "any_isnan t = (\<exists>row \<in> set t. \<exists>x \<in> set row. isnan x)"

text \<open>
  \<^verbatim>\<open>nn.functional.softmax(t, dim=1)\<close>. A row that holds not-a-number or plus infinity, or
  that is minus infinity throughout, comes out as not-a-number throughout (the
  subtraction of the row maximum yields \<open>inf - inf\<close>); in any other row minus infinity
  has weight zero. On finite values the quotient of exponentials is taken exactly, which
  is what the subtraction of the maximum computes too.
\<close>

fun expw :: "fp \<Rightarrow> real" where
  "expw (Fin r) = exp r"
| "expw x = 0"

definition softmax_row :: "fp list \<Rightarrow> fp list" where
  "softmax_row xs =
     (if (\<exists>x \<in> set xs. x = NaN \<or> x = PInf) \<or> (xs \<noteq> [] \<and> (\<forall>x \<in> set xs. x = NInf))
      then map (\<lambda>x. NaN) xs
      else map (\<lambda>x. Fin (expw x / sum_list (map expw xs))) xs)"

definition softmax :: "matrix \<Rightarrow> matrix" where
  "softmax t = map softmax_row t"

definition zeros_like :: "matrix \<Rightarrow> matrix" where
  "zeros_like t = map (map (\<lambda>x. Fin 0)) t"

text \<open>
  \<^verbatim>\<open>t.scatter_(-1, index, v)\<close> for an index of shape \<open>(E', 1)\<close>, given as the list of its
  \<open>E'\<close> entries: row \<open>r\<close> of \<open>t\<close> gets \<open>v\<close> at column \<open>index[r]\<close>. The primitive raises when
  the index has more rows than \<open>t\<close> or names a column out of range; rows beyond the index
  are left as they are.
\<close>

fun scatter :: "matrix \<Rightarrow> nat list \<Rightarrow> fp \<Rightarrow> error + matrix" where
  "scatter t [] v = Inr t"
| "scatter [] (i # idx) v = Inl RuntimeError"
| "scatter (row # t) (i # idx) v =
     (if i < length row
      then (case scatter t idx v of Inl e \<Rightarrow> Inl e | Inr t' \<Rightarrow> Inr (row[i := v] # t'))
      else Inl RuntimeError)"

text \<open>Elementwise \<^verbatim>\<open>one_h - probs.detach() + probs\<close>; detaching does not change values.\<close>

definition straight_through :: "matrix \<Rightarrow> matrix \<Rightarrow> matrix" where
  "straight_through one_h probs =
     map2 (\<lambda>orow prow. map2 (\<lambda>h p. fp_add (fp_sub h p) p) orow prow) one_h probs"

text \<open>
  The maximum reductions of the tensor library treat not-a-number as the largest value
  and return the first position of the maximum. \<open>argmax_from\<close> scans a row from column
  \<open>i\<close> on, holding the best column and value so far.
\<close>

definition beats :: "fp \<Rightarrow> fp \<Rightarrow> bool" where
  "beats x best = (\<not> isnan best \<and> (isnan x \<or> fp_less best x))"

fun argmax_from :: "nat \<Rightarrow> nat \<Rightarrow> fp \<Rightarrow> fp list \<Rightarrow> nat" where
  "argmax_from i bi bv [] = bi"
| "argmax_from i bi bv (x # xs) =
     (if beats x bv then argmax_from (Suc i) i x xs else argmax_from (Suc i) bi bv xs)"

text \<open>\<^verbatim>\<open>row.argmax().item()\<close>; raises on a row without elements.\<close>

fun argmax :: "fp list \<Rightarrow> error + nat" where
  "argmax [] = Inl IndexError"
| "argmax (x # xs) = Inr (argmax_from 1 0 x xs)"

text \<open>\<^verbatim>\<open>t.max(-1, keepdim=True)[1]\<close>: the arg-max column of every row.\<close>

fun max_index :: "matrix \<Rightarrow> error + nat list" where
  "max_index [] = Inr []"
| "max_index (row # t) =
     (case argmax row of
        Inl e \<Rightarrow> Inl e
      | Inr c \<Rightarrow> (case max_index t of Inl e \<Rightarrow> Inl e | Inr cs \<Rightarrow> Inr (c # cs)))"

section \<open>Categorical sampling with retry\<close>

text \<open>
  \<^verbatim>\<open>torch.multinomial(probs, 1)\<close> is a primitive of the tensor library that reads the
  random generator. It is a parameter of the model: \<open>mn k probs\<close> is what the \<open>k\<close>-th call
  since the start returns on \<open>probs\<close>, either an error or one column index per row.
\<close>

type_synonym sampler = "nat \<Rightarrow> matrix \<Rightarrow> error + nat list"

record sample =
  s_probs :: matrix
  s_index :: "nat list"
  s_one_h :: matrix
  s_hardwts :: matrix

text \<open>
  The \<^verbatim>\<open>while\<close> loop of \<^verbatim>\<open>forward\<close> (entered when no weights are given) and of
  \<^verbatim>\<open>sample_weights\<close>; both have the same body. The result is \<open>None\<close> when the loop runs
  forever, an error when a primitive raises, and otherwise the accepted draw together
  with the number of calls of the sampler made so far.
\<close>

partial_function (option) sample_loop ::
  "sampler \<Rightarrow> matrix \<Rightarrow> nat \<Rightarrow> (error + sample \<times> nat) option" where
  "sample_loop mn arch_parameters k =
     (let probs = softmax arch_parameters in
      case mn k probs of
        Inl e \<Rightarrow> Some (Inl e)
      | Inr index \<Rightarrow>
          (case scatter (zeros_like probs) index (Fin 1) of
             Inl e \<Rightarrow> Some (Inl e)
           | Inr one_h \<Rightarrow>
               (let hardwts = straight_through one_h probs in
                if any_isinf probs \<or> any_isnan probs
                then sample_loop mn arch_parameters (Suc k)
                else Some (Inr (\<lparr>s_probs = probs, s_index = index,
                                 s_one_h = one_h, s_hardwts = hardwts\<rparr>, Suc k)))))"

text \<open>
  \<^verbatim>\<open>sample_weights(n)\<close>: \<open>n\<close> rounds of the loop, keeping the one-hot matrix of each
  accepted draw.
\<close>

fun sample_weights_loop ::
  "sampler \<Rightarrow> matrix \<Rightarrow> nat \<Rightarrow> nat \<Rightarrow> matrix list \<Rightarrow> (error + matrix list \<times> nat) option" where
  "sample_weights_loop mn ap 0 k sampled_weights = Some (Inr (sampled_weights, k))"
| "sample_weights_loop mn ap (Suc n) k sampled_weights =
     (case sample_loop mn ap k of
        None \<Rightarrow> None
      | Some (Inl e) \<Rightarrow> Some (Inl e)
      | Some (Inr (s, k')) \<Rightarrow> sample_weights_loop mn ap n k' (sampled_weights @ [s_one_h s]))"

section \<open>Modules, cells and the tensor library\<close>

text \<open>
  A parameter object is identified by a natural number, its identity. A module lists the
  identities of its parameters (as \<^verbatim>\<open>parameters()\<close> does) and maps a feature tensor to a
  feature tensor; the type \<open>'f\<close> of feature tensors is left open.
\<close>

record 'f module =
  m_params :: "nat list"
  m_forward :: "'f \<Rightarrow> 'f"

text \<open>
  What the network uses of a \<^verbatim>\<open>NAS201SearchCell\<close> and of a \<^verbatim>\<open>ResNetBasicblock\<close>; both
  classes live outside this file and are opaque here.
\<close>

record 'f search_cell =
  sc_num_edges :: nat
  sc_edge2index :: "string \<rightharpoonup> nat"
  sc_out_dim :: int
  sc_params :: "nat list"
  forward_gdas :: "'f \<Rightarrow> matrix \<Rightarrow> nat list \<Rightarrow> 'f"
  forward_gdas_const :: "'f \<Rightarrow> matrix \<Rightarrow> nat list \<Rightarrow> 'f \<times> real"

record 'f res_block =
  rb_out_dim :: int
  rb_params :: "nat list"
  rb_forward :: "'f \<Rightarrow> 'f"

datatype 'f cell = SearchCell "'f search_cell" | ResNetBasicblock "'f res_block"

fun out_dim :: "'f cell \<Rightarrow> int" where
  "out_dim (SearchCell c) = sc_out_dim c"
| "out_dim (ResNetBasicblock b) = rb_out_dim b"

fun cell_parameters :: "'f cell \<Rightarrow> nat list" where
  "cell_parameters (SearchCell c) = sc_params c"
| "cell_parameters (ResNetBasicblock b) = rb_params b"

text \<open>
  The constructors and primitives that the network calls. A constructor takes the number
  of objects created so far and returns the module with the new number; identities are
  given out in order of creation.
\<close>

record 'f torch =
  Conv2d :: "int \<Rightarrow> int \<Rightarrow> nat \<Rightarrow> 'f module \<times> nat"
  BatchNorm2d :: "int \<Rightarrow> nat \<Rightarrow> 'f module \<times> nat"
  ReLU :: "nat \<Rightarrow> 'f module \<times> nat"
  AdaptiveAvgPool2d :: "int \<Rightarrow> nat \<Rightarrow> 'f module \<times> nat"
  Linear :: "int \<Rightarrow> int \<Rightarrow> nat \<Rightarrow> 'f module \<times> nat"
  new_ResNetBasicblock :: "int \<Rightarrow> int \<Rightarrow> int \<Rightarrow> nat \<Rightarrow> 'f res_block \<times> nat"
  new_SearchCell ::
    "int \<Rightarrow> int \<Rightarrow> int \<Rightarrow> int \<Rightarrow> string list \<Rightarrow> rat \<Rightarrow> bool \<Rightarrow> bool \<Rightarrow> nat \<Rightarrow> 'f search_cell \<times> nat"
  randn :: "nat \<Rightarrow> nat \<Rightarrow> matrix"
  view_flat :: "'f \<Rightarrow> 'f"

text \<open>
  \<^verbatim>\<open>parameters()\<close> of a container lists a parameter shared by several children once, at
  its first occurrence.
\<close>

definition unique :: "nat list \<Rightarrow> nat list" where
  "unique ps = rev (remdups (rev ps))"

text \<open>\<^verbatim>\<open>nn.Sequential(a, b)\<close>: no parameter of its own, \<open>b\<close> after \<open>a\<close>.\<close>

definition Sequential :: "'f module \<Rightarrow> 'f module \<Rightarrow> 'f module" where
  "Sequential a b =
     \<lparr>m_params = unique (m_params a @ m_params b), m_forward = m_forward b \<circ> m_forward a\<rparr>"

fun fp_scale :: "real \<Rightarrow> fp \<Rightarrow> fp" where
  "fp_scale c (Fin r) = Fin (c * r)"
| "fp_scale c x = x"

section \<open>The layer plan\<close>

text \<open>
  The three lists of \<^verbatim>\<open>__init__\<close> and their \<^verbatim>\<open>zip\<close>. A list times a negative number is
  empty in Python, as \<open>replicate (nat N)\<close> is. The sizes come from a true division.
\<close>

definition layer_channels :: "int \<Rightarrow> int \<Rightarrow> int list" where
  "layer_channels C N =
     replicate (nat N) C @ [C * 2] @ replicate (nat N) (C * 2) @ [C * 4] @ replicate (nat N) (C * 4)"

definition layer_reductions :: "int \<Rightarrow> bool list" where
  "layer_reductions N =
     replicate (nat N) False @ [True] @ replicate (nat N) False @ [True] @ replicate (nat N) False"

definition layer_sizes :: "rat \<Rightarrow> int \<Rightarrow> rat list" where
  "layer_sizes inp_size N =
     replicate (nat N) inp_size @ [inp_size / 2] @ replicate (nat N) (inp_size / 2)
       @ [inp_size / 4] @ replicate (nat N) (inp_size / 4)"

definition layer_plan :: "int \<Rightarrow> int \<Rightarrow> rat \<Rightarrow> (int \<times> bool \<times> rat) list" where
  "layer_plan C N inp_size =
     zip (layer_channels C N) (zip (layer_reductions N) (layer_sizes inp_size N))"

section \<open>The network\<close>

record 'f network =
  C_net :: int
  layerN :: int
  max_nodes :: int
  stem :: "'f module"
  cells :: "'f cell list"
  op_names :: "string list"
  Layer :: nat
  edge2index :: "string \<rightharpoonup> nat"
  lastact :: "'f module"
  global_pooling :: "'f module"
  classifier :: "'f module"
  arch_id :: nat
  arch_parameters :: matrix
  tau :: int
  const :: bool

text \<open>
  The loop of \<^verbatim>\<open>__init__\<close> over the plan. The state is \<^verbatim>\<open>C_prev\<close>, the pair
  \<^verbatim>\<open>(num_edge, edge2index)\<close> (\<open>None\<close> until the first search cell), the cells appended so
  far, and the object counter.
\<close>

fun build_cells ::
  "'f torch \<Rightarrow> int \<Rightarrow> string list \<Rightarrow> bool \<Rightarrow> bool \<Rightarrow> (int \<times> bool \<times> rat) list \<Rightarrow>
   int \<Rightarrow> (nat \<times> (string \<rightharpoonup> nat)) option \<Rightarrow> 'f cell list \<Rightarrow> nat \<Rightarrow>
   error + (int \<times> (nat \<times> (string \<rightharpoonup> nat)) option \<times> 'f cell list \<times> nat)" where
  "build_cells env mx search_space affine track [] C_prev ne cs h = Inr (C_prev, ne, cs, h)"
| "build_cells env mx search_space affine track ((C_curr, reduction, sz) # plan) C_prev ne cs h =
     (if reduction then
        (case new_ResNetBasicblock env C_prev C_curr 2 h of
           (cell, h') \<Rightarrow>
             build_cells env mx search_space affine track plan (rb_out_dim cell) ne
               (cs @ [ResNetBasicblock cell]) h')
      else
        (case new_SearchCell env C_prev C_curr 1 mx search_space sz affine track h of
           (cell, h') \<Rightarrow>
             (case ne of
                None \<Rightarrow>
                  build_cells env mx search_space affine track plan (sc_out_dim cell)
                    (Some (sc_num_edges cell, sc_edge2index cell)) (cs @ [SearchCell cell]) h'
              | Some (num_edge, e2i) \<Rightarrow>
                  if num_edge = sc_num_edges cell \<and> e2i = sc_edge2index cell
                  then build_cells env mx search_space affine track plan (sc_out_dim cell)
                         ne (cs @ [SearchCell cell]) h'
                  else Inl AssertionError)))"

text \<open>
  \<^verbatim>\<open>__init__\<close>. With no search cell in the plan \<^verbatim>\<open>num_edge\<close> is still \<^verbatim>\<open>None\<close> when the
  architecture parameters are allocated, and \<^verbatim>\<open>torch.randn(None, ...)\<close> raises. The new
  \<^verbatim>\<open>nn.Parameter\<close> is the last object created.
\<close>

definition construct ::
  "'f torch \<Rightarrow> int \<Rightarrow> int \<Rightarrow> int \<Rightarrow> int \<Rightarrow> string list \<Rightarrow> bool \<Rightarrow> bool \<Rightarrow> rat \<Rightarrow> nat \<Rightarrow>
   error + 'f network \<times> nat" where
  "construct env C N mx num_classes search_space affine track inp_size h0 =
     (let (conv, h1) = Conv2d env 3 C h0;
          (bn, h2) = BatchNorm2d env C h1
      in case build_cells env mx search_space affine track (layer_plan C N inp_size) C None [] h2 of
           Inl e \<Rightarrow> Inl e
         | Inr (C_prev, ne, cs, h3) \<Rightarrow>
             (let (bn_last, h4) = BatchNorm2d env C_prev h3;
                  (relu, h5) = ReLU env h4;
                  (pool, h6) = AdaptiveAvgPool2d env 1 h5;
                  (fc, h7) = Linear env C_prev num_classes h6
              in case ne of
                   None \<Rightarrow> Inl TypeError
                 | Some (num_edge, e2i) \<Rightarrow>
                     Inr (\<lparr>C_net = C, layerN = N, max_nodes = mx,
                           stem = Sequential conv bn, cells = cs, op_names = search_space,
                           Layer = length cs, edge2index = e2i,
                           lastact = Sequential bn_last relu, global_pooling = pool,
                           classifier = fc, arch_id = h7,
                           arch_parameters =
                             map (map (fp_scale (1 / 1000)))
                               (randn env num_edge (length search_space)),
                           tau = 10, const = (inp_size \<noteq> 0)\<rparr>, Suc h7)))"

text \<open>\<^verbatim>\<open>get_weights\<close> and \<^verbatim>\<open>get_alphas\<close>, as lists of parameter identities.\<close>

definition get_weights :: "'f network \<Rightarrow> nat list" where
  "get_weights net =
     m_params (stem net) @ unique (concat (map cell_parameters (cells net)))
       @ m_params (lastact net) @ m_params (global_pooling net) @ m_params (classifier net)"

definition get_alphas :: "'f network \<Rightarrow> nat list" where
  "get_alphas net = [arch_id net]"

section \<open>Genotype decoding\<close>

text \<open>Decimal notation of a number, as \<^verbatim>\<open>'{:}'.format\<close> prints it.\<close>

fun str_nat :: "nat \<Rightarrow> string" where
  "str_nat n =
     (if n < 10 then [''0123456789'' ! n]
      else str_nat (n div 10) @ [''0123456789'' ! (n mod 10)])"

declare str_nat.simps [simp del]

definition node_str :: "nat \<Rightarrow> nat \<Rightarrow> string" where
  "node_str i j = str_nat i @ ''<-'' @ str_nat j"

text \<open>A \<^verbatim>\<open>for\<close> loop that appends one result per element and stops at the first error.\<close>

fun collect :: "('a \<Rightarrow> error + 'b) \<Rightarrow> 'a list \<Rightarrow> error + 'b list" where
  "collect f [] = Inr []"
| "collect f (x # xs) =
     (case f x of
        Inl e \<Rightarrow> Inl e
      | Inr y \<Rightarrow> (case collect f xs of Inl e \<Rightarrow> Inl e | Inr ys \<Rightarrow> Inr (y # ys)))"

text \<open>The body of the inner loop of \<^verbatim>\<open>genotype\<close>: the pair appended for the edge \<open>i <- j\<close>.\<close>

definition genotype_edge ::
  "'f network \<Rightarrow> matrix option \<Rightarrow> nat \<Rightarrow> nat \<Rightarrow> error + string \<times> nat" where
  "genotype_edge net w i j =
     (case edge2index net (node_str i j) of
        None \<Rightarrow> Inl KeyError
      | Some r \<Rightarrow>
          (let t = (case w of None \<Rightarrow> arch_parameters net | Some w' \<Rightarrow> w') in
           if r < length t then
             (case argmax (t ! r) of
                Inl e \<Rightarrow> Inl e
              | Inr c \<Rightarrow> if c < length (op_names net) then Inr (op_names net ! c, j)
                         else Inl IndexError)
           else Inl IndexError))"

definition genotype :: "'f network \<Rightarrow> matrix option \<Rightarrow> error + (string \<times> nat) list list" where
  "genotype net w =
     collect (\<lambda>i. collect (genotype_edge net w i) [0..<i]) [1..<nat (max_nodes net)]"

section \<open>The forward pass\<close>

text \<open>
  One round of the loop over the cells: the \<^verbatim>\<open>if\<close>/\<^verbatim>\<open>elif\<close> chain of \<^verbatim>\<open>forward\<close>.
  \<open>smp\<close> holds \<^verbatim>\<open>hardwts\<close> and \<^verbatim>\<open>index\<close> when the sampling loop has bound them.
\<close>

fun cell_step ::
  "bool \<Rightarrow> matrix option \<Rightarrow> (matrix \<times> nat list) option \<Rightarrow> 'f cell \<Rightarrow> 'f \<times> real list \<Rightarrow>
   error + 'f \<times> real list" where
  "cell_step cnst weights smp (SearchCell cell) (feature, full_cost) =
     (if weights = None \<and> \<not> cnst then
        (case smp of
           None \<Rightarrow> Inl NameError
         | Some (hardwts, index) \<Rightarrow> Inr (forward_gdas cell feature hardwts index, full_cost))
      else if weights = None then
        (case smp of
           None \<Rightarrow> Inl NameError
         | Some (hardwts, index) \<Rightarrow>
             (case forward_gdas_const cell feature hardwts index of
                (feature', cost) \<Rightarrow> Inr (feature', full_cost @ [cost])))
      else
        (case max_index (the weights) of
           Inl e \<Rightarrow> Inl e
         | Inr index \<Rightarrow> Inr (forward_gdas cell feature (the weights) index, full_cost)))"
| "cell_step cnst weights smp (ResNetBasicblock cell) (feature, full_cost) =
     Inr (rb_forward cell feature, full_cost)"

fun run_cells ::
  "bool \<Rightarrow> matrix option \<Rightarrow> (matrix \<times> nat list) option \<Rightarrow> 'f cell list \<Rightarrow> 'f \<times> real list \<Rightarrow>
   error + 'f \<times> real list" where
  "run_cells cnst weights smp [] st = Inr st"
| "run_cells cnst weights smp (cell # rest) st =
     (case cell_step cnst weights smp cell st of
        Inl e \<Rightarrow> Inl e
      | Inr st' \<Rightarrow> run_cells cnst weights smp rest st')"

text \<open>
  The sampling part of \<^verbatim>\<open>forward\<close>: the loop runs only while \<^verbatim>\<open>weights is None\<close>, and
  leaves \<^verbatim>\<open>hardwts\<close> and \<^verbatim>\<open>index\<close> unbound otherwise.
\<close>

definition forward_sample ::
  "sampler \<Rightarrow> matrix \<Rightarrow> nat \<Rightarrow> matrix option \<Rightarrow> (error + (matrix \<times> nat list) option \<times> nat) option" where
  "forward_sample mn ap k weights =
     (case weights of
        None \<Rightarrow>
          (case sample_loop mn ap k of
             None \<Rightarrow> None
           | Some (Inl e) \<Rightarrow> Some (Inl e)
           | Some (Inr (s, k')) \<Rightarrow> Some (Inr (Some (s_hardwts s, s_index s), k')))
      | Some w \<Rightarrow> Some (Inr (None, k)))"

text \<open>
  \<^verbatim>\<open>forward\<close>: \<open>None\<close> when the sampling loop does not end, otherwise an error or the
  triple \<^verbatim>\<open>(out, logits, sum(full_cost))\<close> with the new count of sampler calls.
\<close>

definition forward ::
  "'f torch \<Rightarrow> 'f network \<Rightarrow> sampler \<Rightarrow> nat \<Rightarrow> 'f \<Rightarrow> matrix option \<Rightarrow>
   (error + ('f \<times> 'f \<times> real) \<times> nat) option" where
  "forward env net mn k inputs weights =
     (case forward_sample mn (arch_parameters net) k weights of
        None \<Rightarrow> None
      | Some (Inl e) \<Rightarrow> Some (Inl e)
      | Some (Inr (smp, k')) \<Rightarrow>
          (case run_cells (const net) weights smp (cells net) (m_forward (stem net) inputs, []) of
             Inl e \<Rightarrow> Some (Inl e)
           | Inr (feature, full_cost) \<Rightarrow>
               (let out = m_forward (lastact net) feature;
                    out = m_forward (global_pooling net) out;
                    out = view_flat env out;
                    logits = m_forward (classifier net) out
                in Some (Inr ((out, logits, sum_list full_cost), k')))))"

definition sample_weights :: "'f network \<Rightarrow> sampler \<Rightarrow> nat \<Rightarrow> int \<Rightarrow> (error + matrix list \<times> nat) option" where
  "sample_weights net mn k n = sample_weights_loop mn (arch_parameters net) (nat n) k []"

section \<open>Notions used in the properties\<close>

text \<open>
  The row flags of a plan made of three groups, each of \<open>N\<close> normal cells followed by one
  reduction.
\<close>

definition three_groups :: "int \<Rightarrow> bool list" where
  "three_groups N = concat (replicate 3 (replicate (nat N) False @ [True]))"

text \<open>The loop has returned an accepted draw.\<close>

definition accepted :: "(error + sample \<times> nat) option \<Rightarrow> bool" where
  "accepted r = (case r of Some (Inr x) \<Rightarrow> True | _ \<Rightarrow> False)"

text \<open>A row without infinity and not-a-number.\<close>

definition finite_row :: "fp list \<Rightarrow> bool" where
  "finite_row xs = (\<forall>x \<in> set xs. \<not> isinf x \<and> \<not> isnan x)"

text \<open>
  \<^verbatim>\<open>row.sum()\<close>, and a one-hot row: it sums to one, one entry is one and the others are
  zero.
\<close>

definition row_sum :: "fp list \<Rightarrow> fp" where
  "row_sum xs = foldl fp_add (Fin 0) xs"

definition one_hot_row :: "fp list \<Rightarrow> bool" where
  "one_hot_row row =
     (row_sum row = Fin 1 \<and>
      (\<exists>c<length row. row ! c = Fin 1 \<and> (\<forall>j<length row. j \<noteq> c \<longrightarrow> row ! j = Fin 0)))"

definition one_hot :: "matrix \<Rightarrow> bool" where
  "one_hot t = (\<forall>row \<in> set t. one_hot_row row)"

text \<open>
  What is assumed of \<^verbatim>\<open>torch.multinomial(probs, 1)\<close>: when it returns, it returns one
  index per row of \<open>probs\<close>.
\<close>

definition sampler_shape :: "sampler \<Rightarrow> bool" where
  "sampler_shape mn = (\<forall>k p idx. mn k p = Inr idx \<longrightarrow> length idx = length p)"

text \<open>
  What is assumed of a constructor of the tensor library: the object counter does not go
  back, and every parameter of the module it returns exists after the call.
\<close>

definition alloc_ok :: "(nat \<Rightarrow> 'a \<times> nat) \<Rightarrow> ('a \<Rightarrow> nat list) \<Rightarrow> bool" where
  "alloc_ok ctor ps =
     (\<forall>h. h \<le> snd (ctor h) \<and> (\<forall>p \<in> set (ps (fst (ctor h))). p < snd (ctor h)))"

definition torch_ok :: "'f torch \<Rightarrow> bool" where
  "torch_ok env =
     ((\<forall>a b. alloc_ok (Conv2d env a b) m_params) \<and>
      (\<forall>a. alloc_ok (BatchNorm2d env a) m_params) \<and>
      alloc_ok (ReLU env) m_params \<and>
      (\<forall>a. alloc_ok (AdaptiveAvgPool2d env a) m_params) \<and>
      (\<forall>a b. alloc_ok (Linear env a b) m_params) \<and>
      (\<forall>a b c. alloc_ok (new_ResNetBasicblock env a b c) rb_params) \<and>
      (\<forall>a b c d e f g i. alloc_ok (new_SearchCell env a b c d e f g i) sc_params))"

definition cells_below :: "nat \<Rightarrow> 'f cell list \<Rightarrow> bool" where
  "cells_below h cs = (\<forall>c \<in> set cs. \<forall>p \<in> set (cell_parameters c). p < h)"

text \<open>Every search cell of the list reports the edge count and the edge map held in \<open>ne\<close>.\<close>

definition agree :: "(nat \<times> (string \<rightharpoonup> nat)) option \<Rightarrow> 'f cell list \<Rightarrow> bool" where
  "agree ne cs = (\<forall>c. SearchCell c \<in> set cs \<longrightarrow> ne = Some (sc_num_edges c, sc_edge2index c))"

text \<open>
  The forward pass in the words of the specification. A search cell behaves in one of
  three ways: (a) without external weights and with cost accumulation disabled, the
  standard GDAS forward on the sampled selection; (b) without external weights and with
  cost accumulation enabled, the GDAS forward that also returns a cost, which is appended
  to the running list; (c) with external weights, the standard GDAS forward on these
  weights, the selected index being their arg-max per edge.
\<close>

datatype branch = Plain_GDAS | Cost_GDAS | External_GDAS

definition branch_of :: "bool \<Rightarrow> matrix option \<Rightarrow> branch" where
  "branch_of flag weights =
     (if weights = None \<and> \<not> flag then Plain_GDAS
      else if weights = None \<and> flag then Cost_GDAS
      else External_GDAS)"

fun run_branch ::
  "branch \<Rightarrow> matrix \<Rightarrow> nat list \<Rightarrow> 'f search_cell \<Rightarrow> 'f \<times> real list \<Rightarrow> 'f \<times> real list" where
  "run_branch Plain_GDAS sel idx c (x, costs) = (forward_gdas c x sel idx, costs)"
| "run_branch Cost_GDAS sel idx c (x, costs) =
     (fst (forward_gdas_const c x sel idx), costs @ [snd (forward_gdas_const c x sel idx)])"
| "run_branch External_GDAS sel idx c (x, costs) = (forward_gdas c x sel idx, costs)"

text \<open>
  The layers in order: a reduction block is run as it is, every search cell is run in the
  one behaviour \<open>b\<close>.
\<close>

fun spec_layers ::
  "branch \<Rightarrow> matrix \<Rightarrow> nat list \<Rightarrow> 'f cell list \<Rightarrow> 'f \<times> real list \<Rightarrow> 'f \<times> real list" where
  "spec_layers b sel idx [] st = st"
| "spec_layers b sel idx (SearchCell c # rest) st =
     spec_layers b sel idx rest (run_branch b sel idx c st)"
| "spec_layers b sel idx (ResNetBasicblock r # rest) (x, costs) =
     spec_layers b sel idx rest (rb_forward r x, costs)"

text \<open>
  The selection of a pass: sampled once when no weights are given, and otherwise the
  given weights with their arg-max per edge.
\<close>

definition spec_selection ::
  "sampler \<Rightarrow> matrix \<Rightarrow> nat \<Rightarrow> matrix option \<Rightarrow> (error + (matrix \<times> nat list) \<times> nat) option" where
  "spec_selection mn ap k weights =
     (case weights of
        None \<Rightarrow>
          (case sample_loop mn ap k of
             None \<Rightarrow> None
           | Some (Inl e) \<Rightarrow> Some (Inl e)
           | Some (Inr (s, k')) \<Rightarrow> Some (Inr ((s_hardwts s, s_index s), k')))
      | Some w \<Rightarrow>
          (case max_index w of
             Inl e \<Rightarrow> Some (Inl e)
           | Inr idx \<Rightarrow> Some (Inr ((w, idx), k))))"

text \<open>
  Stem, layers, final normalisation and activation, pooling, flattening and classifier;
  the result is the pooled features, the logits and the sum of the accumulated costs.
\<close>

definition spec_forward ::
  "'f torch \<Rightarrow> 'f network \<Rightarrow> branch \<Rightarrow> sampler \<Rightarrow> nat \<Rightarrow> 'f \<Rightarrow> matrix option \<Rightarrow>
   (error + ('f \<times> 'f \<times> real) \<times> nat) option" where
  "spec_forward env net b mn k inputs weights =
     (case spec_selection mn (arch_parameters net) k weights of
        None \<Rightarrow> None
      | Some (Inl e) \<Rightarrow> Some (Inl e)
      | Some (Inr ((sel, idx), k')) \<Rightarrow>
          (case spec_layers b sel idx (cells net) (m_forward (stem net) inputs, []) of
             (feature, costs) \<Rightarrow>
               (let pooled = view_flat env
                      (m_forward (global_pooling net) (m_forward (lastact net) feature))
                in Some (Inr ((pooled, m_forward (classifier net) pooled, sum_list costs), k')))))"

text \<open>The result of a call without the count of sampler calls.\<close>

definition outcome :: "(error + 'a \<times> nat) option \<Rightarrow> (error + 'a) option" where
  "outcome r = map_option (map_sum id fst) r"

section \<open>A small instance\<close>

text \<open>
  Two samplers that draw column 0 in every row: the first never raises, the second
  raises on probabilities that are not finite or on an empty row.
\<close>

definition pick_first :: sampler where
  "pick_first k probs = Inr (map (\<lambda>row. 0) probs)"

definition pick_first_checked :: sampler where
  "pick_first_checked k probs =
     (if any_isinf probs \<or> any_isnan probs \<or> (\<exists>row \<in> set probs. row = [])
      then Inl RuntimeError else Inr (map (\<lambda>row. 0) probs))"

text \<open>
  A tensor library over integer features, with search cells of three nodes (three edges)
  and three candidate operations.
\<close>

definition example_ops :: "string list" where
  "example_ops = [''none'', ''skip_connect'', ''nor_conv_3x3'']"

definition example_edges :: "string \<rightharpoonup> nat" where
  "example_edges = [''1<-0'' \<mapsto> 0, ''2<-0'' \<mapsto> 1, ''2<-1'' \<mapsto> 2]"

definition example_module :: "nat list \<Rightarrow> int module" where
  "example_module ps = \<lparr>m_params = ps, m_forward = (\<lambda>x. x + 1)\<rparr>"

definition example_cell :: "nat \<Rightarrow> int \<Rightarrow> nat \<Rightarrow> int search_cell" where
  "example_cell n c_out h =
     \<lparr>sc_num_edges = n, sc_edge2index = example_edges, sc_out_dim = c_out, sc_params = [h],
      forward_gdas = (\<lambda>x w idx. x + int (sum_list idx)),
      forward_gdas_const = (\<lambda>x w idx. (x + int (sum_list idx), 1))\<rparr>"

definition example_block :: "int \<Rightarrow> nat \<Rightarrow> int res_block" where
  "example_block c_out h = \<lparr>rb_out_dim = c_out, rb_params = [h], rb_forward = (\<lambda>x. x)\<rparr>"

definition example_torch :: "int torch" where
  "example_torch =
     \<lparr>Conv2d = (\<lambda>a b h. (example_module [h], Suc h)),
      BatchNorm2d = (\<lambda>a h. (example_module [h, Suc h], h + 2)),
      ReLU = (\<lambda>h. (example_module [], h)),
      AdaptiveAvgPool2d = (\<lambda>a h. (example_module [], h)),
      Linear = (\<lambda>a b h. (example_module [h, Suc h], h + 2)),
      new_ResNetBasicblock = (\<lambda>a b c h. (example_block b h, Suc h)),
      new_SearchCell = (\<lambda>a b c mx ss sz af tr h. (example_cell 3 b h, Suc h)),
      randn = (\<lambda>e k. replicate e (replicate k (Fin 0))),
      view_flat = (\<lambda>x. x)\<rparr>"

text \<open>The same library, except that a search cell reports as many edges as it has channels.\<close>

definition skewed_torch :: "int torch" where
  "skewed_torch =
     example_torch\<lparr>new_SearchCell := (\<lambda>a b c mx ss sz af tr h. (example_cell (nat b) b h, Suc h))\<rparr>"

text \<open>
  The network that \<open>construct example_torch 8 1 3 10 example_ops False True 32 0\<close> builds.
\<close>

definition example_net :: "int network" where
  "example_net =
     \<lparr>C_net = 8, layerN = 1, max_nodes = 3,
      stem = Sequential (example_module [0]) (example_module [1, 2]),
      cells = [SearchCell (example_cell 3 8 3), ResNetBasicblock (example_block 16 4),
               SearchCell (example_cell 3 16 5), ResNetBasicblock (example_block 32 6),
               SearchCell (example_cell 3 32 7)],
      op_names = example_ops, Layer = 5, edge2index = example_edges,
      lastact = Sequential (example_module [8, 9]) (example_module []),
      global_pooling = example_module [], classifier = example_module [10, 11],
      arch_id = 12,
      arch_parameters = replicate 3 (replicate 3 (Fin 0)),
      tau = 10, const = True\<rparr>"

definition example_weights :: matrix where
  "example_weights = [[Fin 0, Fin 2, Fin 1], [Fin 3, Fin 0, Fin 0], [Fin 0, Fin 0, Fin 5]]"

section \<open>Facts about the tensor primitives\<close>

lemma finite_row_iff: "finite_row xs \<longleftrightarrow> (\<forall>x \<in> set xs. \<exists>r. x = Fin r)"
  unfolding finite_row_def isinf_def isnan_def
  by (metis fp.exhaust fp.distinct)

lemma finite_probs_rows:
  "\<not> any_isinf t \<Longrightarrow> \<not> any_isnan t \<Longrightarrow> row \<in> set t \<Longrightarrow> finite_row row"
  by (auto simp: any_isinf_def any_isnan_def finite_row_def)

text \<open>
  The denominator of the softmax of a row is positive whenever the quotient is taken, and
  the softmax of a row is finite exactly when the row is empty or holds neither
  not-a-number nor plus infinity and is not minus infinity throughout.
\<close>

lemma sum_expw_pos:
  assumes "xs \<noteq> []" "\<forall>x\<in>set xs. x \<noteq> NaN \<and> x \<noteq> PInf" "\<exists>x\<in>set xs. x \<noteq> NInf"
  shows "0 < sum_list (map expw xs)"
proof -
  have nn: "\<forall>x\<in>set xs. 0 \<le> expw x" 
    by (metis expw.elims exp_ge_zero order_refl)
  obtain x where x: "x \<in> set xs" "x \<noteq> NInf" using assms by blast
  then obtain r where "x = Fin r" using assms(2) by (metis fp.exhaust)
  then have "0 < expw x" by simp
  moreover have "expw x \<le> sum_list (map expw xs)"
    using x(1) nn by (intro member_le_sum_list) auto
  ultimately show ?thesis by linarith
qed

lemma softmax_row_finite:
  "finite_row (softmax_row xs) \<longleftrightarrow>
     (xs = [] \<or> ((\<forall>x\<in>set xs. x \<noteq> NaN \<and> x \<noteq> PInf) \<and> (\<exists>x\<in>set xs. x \<noteq> NInf)))"
  by (cases xs) (auto simp: softmax_row_def finite_row_def isinf_def isnan_def)

lemma softmax_finite:
  assumes "\<forall>row \<in> set ap. finite_row row"
  shows "\<not> any_isinf (softmax ap) \<and> \<not> any_isnan (softmax ap)"
proof -
  have "finite_row (softmax_row row)" if "row \<in> set ap" for row
  proof -
    have "\<forall>x\<in>set row. \<exists>r. x = Fin r" using assms that by (simp add: finite_row_iff)
    then show ?thesis unfolding softmax_row_finite by (cases row) fastforce+
  qed
  then show ?thesis
    by (auto simp: any_isinf_def any_isnan_def softmax_def finite_row_def)
qed

lemma scatter_zeros:
  "scatter (map (map (\<lambda>x. Fin 0)) p) idx (Fin 1) = Inr oh \<Longrightarrow> length idx = length p \<Longrightarrow>
     length oh = length p \<and>
     (\<forall>r<length p. idx ! r < length (p ! r) \<and>
        oh ! r = (replicate (length (p ! r)) (Fin 0))[idx ! r := Fin 1])"
proof (induction p arbitrary: idx oh)
  case Nil
  then show ?case by simp
next
  case (Cons row p)
  then obtain i idx' where idx: "idx = i # idx'" by (cases idx) auto
  from Cons.prems idx obtain oh' where
    i: "i < length row" and s: "scatter (map (map (\<lambda>x. Fin 0)) p) idx' (Fin 1) = Inr oh'"
    and oh: "oh = (map (\<lambda>x. Fin 0) row)[i := Fin 1] # oh'"
    by (auto split: if_splits sum.splits)
  from Cons.IH[OF s] Cons.prems idx have IH: "length oh' = length p"
    "\<forall>r<length p. idx' ! r < length (p ! r) \<and>
        oh' ! r = (replicate (length (p ! r)) (Fin 0))[idx' ! r := Fin 1]" by auto
  have len: "length oh = length (row # p)" using oh IH by simp
  have "idx ! r < length ((row # p) ! r) \<and>
        oh ! r = (replicate (length ((row # p) ! r)) (Fin 0))[idx ! r := Fin 1]"
    if "r < length (row # p)" for r
    using that idx oh i IH by (cases r) (auto simp: map_replicate_const)
  with len show ?case by blast
qed

lemma foldl_zeros: "foldl fp_add (Fin a) (replicate m (Fin 0)) = Fin a"
  by (induction m) auto

lemma one_hot_unit:
  assumes "c < n"
  shows "one_hot_row ((replicate n (Fin 0))[c := Fin 1])"
proof -
  have "(replicate n (Fin 0))[c := Fin 1] = replicate c (Fin 0) @ Fin 1 # replicate (n - Suc c) (Fin 0)"
    using assms by (simp add: upd_conv_take_nth_drop min_def)
  then have "row_sum ((replicate n (Fin 0))[c := Fin 1]) = Fin 1"
    by (simp add: row_sum_def foldl_zeros)
  moreover have "\<exists>c'<n. (replicate n (Fin 0))[c := Fin 1] ! c' = Fin 1 \<and>
      (\<forall>j<n. j \<noteq> c' \<longrightarrow> (replicate n (Fin 0))[c := Fin 1] ! j = Fin 0)"
    using assms by (intro exI[of _ c]) auto
  ultimately show ?thesis by (simp add: one_hot_row_def)
qed

lemma straight_through_row:
  assumes "finite_row prow" "c < length prow"
  shows "map2 (\<lambda>h p. fp_add (fp_sub h p) p) ((replicate (length prow) (Fin 0))[c := Fin 1]) prow
           = (replicate (length prow) (Fin 0))[c := Fin 1]"
proof (rule nth_equalityI)
  show "length (map2 (\<lambda>h p. fp_add (fp_sub h p) p) ((replicate (length prow) (Fin 0))[c := Fin 1]) prow)
        = length ((replicate (length prow) (Fin 0))[c := Fin 1])" by simp
next
  fix i assume "i < length (map2 (\<lambda>h p. fp_add (fp_sub h p) p) ((replicate (length prow) (Fin 0))[c := Fin 1]) prow)"
  then have i: "i < length prow" by simp
  then obtain r where r: "prow ! i = Fin r"
    using assms(1) by (metis finite_row_iff nth_mem)
  show "map2 (\<lambda>h p. fp_add (fp_sub h p) p) ((replicate (length prow) (Fin 0))[c := Fin 1]) prow ! i
        = (replicate (length prow) (Fin 0))[c := Fin 1] ! i"
    using i r by (cases "i = c") (simp_all add: fp_sub_def)
qed

lemma fp_less_facts: "fp_less x y \<Longrightarrow> \<not> isnan x \<and> \<not> isnan y \<and> \<not> fp_less y x"
  by (cases x; cases y) (auto simp: isnan_def)

lemma argmax_from_keep:
  "\<forall>x \<in> set xs. fp_less x bv \<Longrightarrow> argmax_from i bi bv xs = bi"
  by (induction xs arbitrary: i) (auto simp: beats_def dest: fp_less_facts)

lemma argmax_from_find:
  "m < length xs \<Longrightarrow> fp_less bv (xs ! m) \<Longrightarrow>
   (\<forall>k<length xs. k \<noteq> m \<longrightarrow> fp_less (xs ! k) (xs ! m)) \<Longrightarrow>
   argmax_from i bi bv xs = i + m"
proof (induction xs arbitrary: i bi bv m)
  case Nil
  then show ?case by simp
next
  case (Cons x xs)
  show ?case
  proof (cases m)
    case 0
    then have b: "beats x bv" using Cons.prems(2) by (auto simp: beats_def dest: fp_less_facts)
    have "\<forall>y \<in> set xs. fp_less y x"
    proof
      fix y assume "y \<in> set xs"
      then obtain k where "k < length xs" "y = xs ! k" by (auto simp: in_set_conv_nth)
      then show "fp_less y x" using Cons.prems(3)[rule_format, of "Suc k"] 0 by simp
    qed
    then show ?thesis using b 0 by (simp add: argmax_from_keep)
  next
    case (Suc m')
    have m': "m' < length xs" using Cons.prems(1) Suc by simp
    have x: "fp_less x (xs ! m')" using Cons.prems(3)[rule_format, of 0] Suc by simp
    have bv: "fp_less bv (xs ! m')" using Cons.prems(2) Suc by simp
    have rest: "\<forall>k<length xs. k \<noteq> m' \<longrightarrow> fp_less (xs ! k) (xs ! m')"
    proof (intro allI impI)
      fix k assume "k < length xs" "k \<noteq> m'"
      then show "fp_less (xs ! k) (xs ! m')" using Cons.prems(3)[rule_format, of "Suc k"] Suc by simp
    qed
    show ?thesis
      using Cons.IH[OF m' x rest, of "Suc i" i] Cons.IH[OF m' bv rest, of "Suc i" bi] Suc
      by simp
  qed
qed

lemma argmax_unique:
  assumes "c < length row" "\<forall>k<length row. k \<noteq> c \<longrightarrow> fp_less (row ! k) (row ! c)"
  shows "argmax row = Inr c"
proof (cases row)
  case Nil
  then show ?thesis using assms by simp
next
  case (Cons x xs)
  show ?thesis
  proof (cases c)
    case 0
    have "\<forall>y \<in> set xs. fp_less y x"
    proof
      fix y assume "y \<in> set xs"
      then obtain k where "k < length xs" "y = xs ! k" by (auto simp: in_set_conv_nth)
      then show "fp_less y x" using assms(2)[rule_format, of "Suc k"] 0 Cons by simp
    qed
    then show ?thesis using Cons 0 by (simp add: argmax_from_keep)
  next
    case (Suc m)
    have "argmax_from 1 0 x xs = 1 + m"
    proof (rule argmax_from_find)
      show "m < length xs" using assms(1) Cons Suc by simp
      show "fp_less x (xs ! m)" using assms(2)[rule_format, of 0] Cons Suc by simp
      show "\<forall>k<length xs. k \<noteq> m \<longrightarrow> fp_less (xs ! k) (xs ! m)"
      proof (intro allI impI)
        fix k assume "k < length xs" "k \<noteq> m"
        then show "fp_less (xs ! k) (xs ! m)" using assms(2)[rule_format, of "Suc k"] Cons Suc by simp
      qed
    qed
    then show ?thesis using Cons Suc by simp
  qed
qed

lemma collect_Inr:
  "collect f xs = Inr ys \<Longrightarrow> length ys = length xs \<and> (\<forall>k<length xs. f (xs ! k) = Inr (ys ! k))"
proof (induction xs arbitrary: ys)
  case Nil
  then show ?case by simp
next
  case (Cons x xs)
  from Cons.prems obtain y ys' where y: "f x = Inr y" and r: "collect f xs = Inr ys'" and ys: "ys = y # ys'"
    by (auto split: sum.splits)
  from Cons.IH[OF r] y ys show ?case by (auto simp: nth_Cons split: nat.splits)
qed

section \<open>The sampling loop\<close>

text \<open>
  The probabilities are computed from the architecture parameters alone, so the test
  that rejects a draw has the same outcome in every round: with probabilities that are
  not finite no round accepts, and with finite ones the first round does.
\<close>

lemma sample_loop_rejects:
  "sample_loop mn ap k = Some y \<Longrightarrow>
     any_isinf (softmax ap) \<or> any_isnan (softmax ap) \<longrightarrow> (\<forall>r. y \<noteq> Inr r)"
  by (rule sample_loop.raw_induct[where P = "\<lambda>mn ap k y.
        any_isinf (softmax ap) \<or> any_isnan (softmax ap) \<longrightarrow> (\<forall>r. y \<noteq> Inr r)"])
     (auto simp: Let_def split: sum.splits if_splits)

lemma sample_loop_once:
  assumes "\<not> any_isinf (softmax ap)" "\<not> any_isnan (softmax ap)"
  shows "sample_loop mn ap k =
     (case mn k (softmax ap) of Inl e \<Rightarrow> Some (Inl e)
      | Inr index \<Rightarrow> (case scatter (zeros_like (softmax ap)) index (Fin 1) of Inl e \<Rightarrow> Some (Inl e)
         | Inr one_h \<Rightarrow> Some (Inr (\<lparr>s_probs = softmax ap, s_index = index, s_one_h = one_h,
               s_hardwts = straight_through one_h (softmax ap)\<rparr>, Suc k))))"
  using assms by (subst sample_loop.simps) (simp add: Let_def split: sum.splits)

lemma sample_loop_first_forever:
  "sample_loop mn ap k = Some y \<Longrightarrow> mn = pick_first \<and> ap = [[NaN]] \<longrightarrow> False"
  by (rule sample_loop.raw_induct[where P = "\<lambda>mn ap k y. mn = pick_first \<and> ap = [[NaN]] \<longrightarrow> False"])
     (auto simp: Let_def pick_first_def softmax_def softmax_row_def zeros_like_def any_isnan_def isnan_def
           split: sum.splits if_splits)

lemma accepted_sample:
  assumes acc: "sample_loop mn ap k = Some (Inr (s, k'))" and sh: "sampler_shape mn"
  shows "one_hot (s_one_h s) \<and> s_hardwts s = s_one_h s \<and> length (s_one_h s) = length ap"
proof -
  let ?p = "softmax ap"
  have fin: "\<not> any_isinf ?p" "\<not> any_isnan ?p"
    using sample_loop_rejects[OF acc] by auto
  from acc obtain idx oh where idx: "mn k ?p = Inr idx"
    and sc: "scatter (zeros_like ?p) idx (Fin 1) = Inr oh"
    and s: "s = \<lparr>s_probs = ?p, s_index = idx, s_one_h = oh, s_hardwts = straight_through oh ?p\<rparr>"
    unfolding sample_loop_once[OF fin] by (auto split: sum.splits)
  have len: "length idx = length ?p" using sh idx by (auto simp: sampler_shape_def)
  from scatter_zeros[OF sc[unfolded zeros_like_def] len]
  have ohl: "length oh = length ?p"
    and rows: "\<And>r. r < length ?p \<Longrightarrow> idx ! r < length (?p ! r) \<and>
        oh ! r = (replicate (length (?p ! r)) (Fin 0))[idx ! r := Fin 1]" by auto
  have "one_hot oh"
    unfolding one_hot_def
  proof
    fix row assume "row \<in> set oh"
    then obtain r where "r < length oh" "row = oh ! r" by (auto simp: in_set_conv_nth)
    then show "one_hot_row row" using rows[of r] ohl by (simp add: one_hot_unit)
  qed
  moreover have "straight_through oh ?p = oh"
  proof (rule nth_equalityI)
    show "length (straight_through oh ?p) = length oh" using ohl by (simp add: straight_through_def)
  next
    fix r assume "r < length (straight_through oh ?p)"
    then have r: "r < length ?p" using ohl by (simp add: straight_through_def)
    then have "finite_row (?p ! r)" using fin finite_probs_rows by (metis nth_mem)
    then show "straight_through oh ?p ! r = oh ! r"
      using r ohl rows[OF r] by (simp add: straight_through_def straight_through_row)
  qed
  ultimately show ?thesis using s ohl by (simp add: softmax_def)
qed

lemma sample_weights_loop_one_hot:
  "sample_weights_loop mn ap n k acc = Some (Inr (ws, k')) \<Longrightarrow> sampler_shape mn \<Longrightarrow>
     \<forall>w \<in> set acc. one_hot w \<Longrightarrow> length ws = length acc + n \<and> (\<forall>w \<in> set ws. one_hot w)"
proof (induction n arbitrary: k acc)
  case 0
  then show ?case by simp
next
  case (Suc n)
  from Suc.prems(1) obtain s k1 where s: "sample_loop mn ap k = Some (Inr (s, k1))"
    and rest: "sample_weights_loop mn ap n k1 (acc @ [s_one_h s]) = Some (Inr (ws, k'))"
    by (auto split: option.splits sum.splits)
  have "\<forall>w \<in> set (acc @ [s_one_h s]). one_hot w"
    using Suc.prems(3) accepted_sample[OF s Suc.prems(2)] by simp
  from Suc.IH[OF rest Suc.prems(2) this] show ?case by simp
qed

section \<open>Construction\<close>

lemma alloc_okD:
  "alloc_ok ctor ps \<Longrightarrow> ctor h = (m, h') \<Longrightarrow> h \<le> h' \<and> (\<forall>p \<in> set (ps m). p < h')"
  unfolding alloc_ok_def by (metis fst_conv snd_conv)

lemma torch_okD:
  assumes "torch_ok env"
  shows "Conv2d env a b h = (m, h') \<Longrightarrow> h \<le> h' \<and> (\<forall>p \<in> set (m_params m). p < h')"
    and "BatchNorm2d env a h = (m, h') \<Longrightarrow> h \<le> h' \<and> (\<forall>p \<in> set (m_params m). p < h')"
    and "ReLU env h = (m, h') \<Longrightarrow> h \<le> h' \<and> (\<forall>p \<in> set (m_params m). p < h')"
    and "AdaptiveAvgPool2d env a h = (m, h') \<Longrightarrow> h \<le> h' \<and> (\<forall>p \<in> set (m_params m). p < h')"
    and "Linear env a b h = (m, h') \<Longrightarrow> h \<le> h' \<and> (\<forall>p \<in> set (m_params m). p < h')"
    and "new_ResNetBasicblock env a b c h = (rb, h') \<Longrightarrow> h \<le> h' \<and> (\<forall>p \<in> set (rb_params rb). p < h')"
    and "new_SearchCell env a b c d e f g i h = (sc, h') \<Longrightarrow> h \<le> h' \<and> (\<forall>p \<in> set (sc_params sc). p < h')"
  using assms alloc_okD[of "Conv2d env a b" m_params h m h']
    alloc_okD[of "BatchNorm2d env a" m_params h m h']
    alloc_okD[of "ReLU env" m_params h m h']
    alloc_okD[of "AdaptiveAvgPool2d env a" m_params h m h']
    alloc_okD[of "Linear env a b" m_params h m h']
    alloc_okD[of "new_ResNetBasicblock env a b c" rb_params h rb h']
    alloc_okD[of "new_SearchCell env a b c d e f g i" sc_params h sc h']
  unfolding torch_ok_def by blast+

lemma cells_below_mono: "cells_below h cs \<Longrightarrow> h \<le> h' \<Longrightarrow> cells_below h' cs"
  unfolding cells_below_def by fastforce

lemma cells_below_snoc:
  "cells_below h' (cs @ [c]) \<longleftrightarrow> cells_below h' cs \<and> (\<forall>p \<in> set (cell_parameters c). p < h')"
  unfolding cells_below_def by auto

lemma build_cells_alloc:
  "torch_ok env \<Longrightarrow> build_cells env mx ss af tr plan Cp ne cs h = Inr (Cp', ne', cs', h') \<Longrightarrow>
   cells_below h cs \<Longrightarrow> h \<le> h' \<and> cells_below h' cs'"
proof (induction plan arbitrary: Cp ne cs h)
  case Nil
  then show ?case by simp
next
  case (Cons e plan)
  obtain C_curr reduction sz where e: "e = (C_curr, reduction, sz)" by (cases e)
  show ?case
  proof (cases reduction)
    case True
    obtain cell h1 where c: "new_ResNetBasicblock env Cp C_curr 2 h = (cell, h1)"
      by (cases "new_ResNetBasicblock env Cp C_curr 2 h") auto
    have ok: "h \<le> h1 \<and> (\<forall>p \<in> set (rb_params cell). p < h1)"
      using torch_okD(6)[OF Cons.prems(1) c] .
    have r: "build_cells env mx ss af tr plan (rb_out_dim cell) ne (cs @ [ResNetBasicblock cell]) h1
             = Inr (Cp', ne', cs', h')"
      using Cons.prems(2) e True c by simp
    have "cells_below h1 (cs @ [ResNetBasicblock cell])"
      using ok cells_below_mono[OF Cons.prems(3)] by (simp add: cells_below_snoc)
    from Cons.IH[OF Cons.prems(1) r this] ok show ?thesis by simp
  next
    case False
    obtain cell h1 where c: "new_SearchCell env Cp C_curr 1 mx ss sz af tr h = (cell, h1)"
      by (cases "new_SearchCell env Cp C_curr 1 mx ss sz af tr h") auto
    have ok: "h \<le> h1 \<and> (\<forall>p \<in> set (sc_params cell). p < h1)"
      using torch_okD(7)[OF Cons.prems(1) c] .
    obtain ne1 where r: "build_cells env mx ss af tr plan (sc_out_dim cell) ne1 (cs @ [SearchCell cell]) h1
             = Inr (Cp', ne', cs', h')"
      using Cons.prems(2) e False c by (auto split: option.splits if_splits)
    have "cells_below h1 (cs @ [SearchCell cell])"
      using ok cells_below_mono[OF Cons.prems(3)] by (simp add: cells_below_snoc)
    from Cons.IH[OF Cons.prems(1) r this] ok show ?thesis by simp
  qed
qed

lemma construct_Inr:
  assumes "construct env C N mx nc ss af tr s h0 = Inr (net, h)"
  obtains conv h1 bn h2 C_prev num_edge e2i cs h3 bn_last h4 relu h5 pool h6 fc h7 where
    "Conv2d env 3 C h0 = (conv, h1)" "BatchNorm2d env C h1 = (bn, h2)"
    "build_cells env mx ss af tr (layer_plan C N s) C None [] h2 = Inr (C_prev, Some (num_edge, e2i), cs, h3)"
    "BatchNorm2d env C_prev h3 = (bn_last, h4)" "ReLU env h4 = (relu, h5)"
    "AdaptiveAvgPool2d env 1 h5 = (pool, h6)" "Linear env C_prev nc h6 = (fc, h7)"
    "stem net = Sequential conv bn" "cells net = cs" "lastact net = Sequential bn_last relu"
    "global_pooling net = pool" "classifier net = fc" "arch_id net = h7" "h = Suc h7"
    "edge2index net = e2i" "const net = (s \<noteq> 0)" "max_nodes net = mx" "op_names net = ss"
  using assms unfolding construct_def Let_def
  by (auto split: prod.splits sum.splits option.splits)

lemma build_cells_append:
  "build_cells env mx ss af tr (pre @ post) Cp ne cs h =
     (case build_cells env mx ss af tr pre Cp ne cs h of
        Inl e \<Rightarrow> Inl e
      | Inr (Cp', ne', cs', h') \<Rightarrow> build_cells env mx ss af tr post Cp' ne' cs' h')"
proof (induction pre arbitrary: Cp ne cs h)
  case Nil
  then show ?case by simp
next
  case (Cons e pre)
  obtain C_curr reduction sz where e: "e = (C_curr, reduction, sz)" by (cases e)
  show ?case unfolding e
    by (simp add: Cons.IH split: prod.splits option.splits)
qed

lemma build_cells_agree:
  "build_cells env mx ss af tr plan Cp ne cs h = Inr (Cp', ne', cs', h') \<Longrightarrow> agree ne cs \<Longrightarrow>
     agree ne' cs'"
proof (induction plan arbitrary: Cp ne cs h)
  case Nil
  then show ?case by simp
next
  case (Cons e plan)
  obtain C_curr reduction sz where e: "e = (C_curr, reduction, sz)" by (cases e)
  show ?case
  proof (cases reduction)
    case True
    obtain cell h1 where c: "new_ResNetBasicblock env Cp C_curr 2 h = (cell, h1)"
      by (cases "new_ResNetBasicblock env Cp C_curr 2 h") auto
    have r: "build_cells env mx ss af tr plan (rb_out_dim cell) ne (cs @ [ResNetBasicblock cell]) h1
             = Inr (Cp', ne', cs', h')"
      using Cons.prems(1) e True c by simp
    have "agree ne (cs @ [ResNetBasicblock cell])" using Cons.prems(2) by (simp add: agree_def)
    from Cons.IH[OF r this] show ?thesis .
  next
    case False
    obtain cell h1 where c: "new_SearchCell env Cp C_curr 1 mx ss sz af tr h = (cell, h1)"
      by (cases "new_SearchCell env Cp C_curr 1 mx ss sz af tr h") auto
    let ?ne1 = "Some (sc_num_edges cell, sc_edge2index cell)"
    have r: "build_cells env mx ss af tr plan (sc_out_dim cell) ?ne1 (cs @ [SearchCell cell]) h1
             = Inr (Cp', ne', cs', h')" and a: "agree ?ne1 cs"
      using Cons.prems e False c by (auto simp: agree_def split: option.splits if_splits)
    have "agree ?ne1 (cs @ [SearchCell cell])" using a by (auto simp: agree_def)
    from Cons.IH[OF r this] show ?thesis .
  qed
qed

lemma build_cells_mismatch:
  assumes "new_SearchCell env Cp C_curr 1 mx ss sz af tr h = (cell, h')"
    and "num_edge \<noteq> sc_num_edges cell \<or> e2i \<noteq> sc_edge2index cell"
  shows "build_cells env mx ss af tr ((C_curr, False, sz) # post) Cp (Some (num_edge, e2i)) cs h
           = Inl AssertionError"
  using assms by auto

section \<open>Decoding and the forward pass\<close>

lemma genotype_entries:
  assumes g: "genotype net w = Inr g" and i: "1 \<le> i" "i < nat (max_nodes net)" and j: "j < i"
  shows "length g = nat (max_nodes net) - 1 \<and> length (g ! (i - 1)) = i
         \<and> genotype_edge net w i j = Inr (g ! (i - 1) ! j)"
proof -
  let ?f = "\<lambda>i. collect (genotype_edge net w i) [0..<i]"
  from collect_Inr[OF g[unfolded genotype_def]]
  have len: "length g = nat (max_nodes net) - 1"
    and rows: "\<forall>k<nat (max_nodes net) - 1. ?f ([1..<nat (max_nodes net)] ! k) = Inr (g ! k)"
    by auto
  have "?f i = Inr (g ! (i - 1))" using rows[rule_format, of "i - 1"] i by simp
  from collect_Inr[OF this] j have "length (g ! (i - 1)) = i"
    "genotype_edge net w i j = Inr (g ! (i - 1) ! j)" by auto
  with len show ?thesis by simp
qed

lemma genotype_edge_snd: "genotype_edge net w i j = Inr p \<Longrightarrow> snd p = j"
  by (auto simp: genotype_edge_def Let_def split: option.splits sum.splits if_splits)

text \<open>
  Decoding returns a genotype when every edge of every node is in the edge index map, its
  row exists and is not empty, and the rows are no longer than the list of operation
  names.
\<close>

lemma argmax_from_bound: "bi < i \<Longrightarrow> argmax_from i bi bv xs < i + length xs"
proof (induction xs arbitrary: i bi bv)
  case Nil
  then show ?case by simp
next
  case (Cons x xs)
  have "argmax_from (Suc i) i x xs < Suc i + length xs" by (rule Cons.IH) simp
  moreover have "argmax_from (Suc i) bi bv xs < Suc i + length xs"
    by (rule Cons.IH) (use Cons.prems in simp)
  ultimately show ?case by simp
qed

lemma argmax_bound: "argmax row = Inr c \<Longrightarrow> c < length row"
  using argmax_from_bound[of 0 1] by (cases row) auto

lemma collect_defined:
  "\<forall>x \<in> set xs. \<exists>y. f x = Inr y \<Longrightarrow> \<exists>ys. collect f xs = Inr ys"
  by (induction xs) (auto split: sum.splits)

lemma genotype_returns:
  assumes "t = (case w of None \<Rightarrow> arch_parameters net | Some w' \<Rightarrow> w')"
    and "\<forall>i j. 1 \<le> i \<and> i < nat (max_nodes net) \<and> j < i \<longrightarrow>
           (\<exists>r. edge2index net (node_str i j) = Some r \<and> r < length t \<and> t ! r \<noteq> []
                \<and> length (t ! r) \<le> length (op_names net))"
  shows "\<exists>g. genotype net w = Inr g"
  unfolding genotype_def
proof (rule collect_defined, rule ballI)
  fix i assume "i \<in> set [1..<nat (max_nodes net)]"
  then have i: "1 \<le> i" "i < nat (max_nodes net)" by auto
  show "\<exists>y. collect (genotype_edge net w i) [0..<i] = Inr y"
  proof (rule collect_defined, rule ballI)
    fix j assume "j \<in> set [0..<i]"
    then have "j < i" by simp
    with assms(2) i obtain r where r: "edge2index net (node_str i j) = Some r" "r < length t"
      "t ! r \<noteq> []" "length (t ! r) \<le> length (op_names net)" by blast
    from r(3) obtain c where c: "argmax (t ! r) = Inr c" by (cases "t ! r") auto
    from argmax_bound[OF c] r(4) have "c < length (op_names net)" by simp
    then show "\<exists>y. genotype_edge net w i j = Inr y"
      using r c assms(1) by (simp add: genotype_edge_def)
  qed
qed

lemma run_cells_external_cost:
  "run_cells cnst (Some w) smp cs (f, fc) = Inr (f', fc') \<Longrightarrow> fc' = fc"
proof (induction cs arbitrary: f)
  case Nil
  then show ?case by simp
next
  case (Cons c cs)
  then show ?case by (cases c) (auto split: sum.splits)
qed

text \<open>
  The chain of \<^verbatim>\<open>forward\<close> on one search cell, and the values bound by the sampling part.
\<close>

lemma cell_step_branches:
  "(forward_sample mn ap k None = Some (Inr (smp', k')) \<longrightarrow> smp' \<noteq> None)
   \<and> (weights = None \<and> \<not> cnst \<longrightarrow>
        cell_step cnst weights (Some (hardwts, index)) (SearchCell cell) (feature, full_cost)
          = Inr (forward_gdas cell feature hardwts index, full_cost))
   \<and> (weights = None \<and> cnst \<longrightarrow>
        cell_step cnst weights (Some (hardwts, index)) (SearchCell cell) (feature, full_cost)
          = Inr (fst (forward_gdas_const cell feature hardwts index),
                 full_cost @ [snd (forward_gdas_const cell feature hardwts index)]))
   \<and> (weights = Some w \<longrightarrow>
        cell_step cnst weights smp (SearchCell cell) (feature, full_cost)
          = (case max_index w of
               Inl e \<Rightarrow> Inl e
             | Inr index' \<Rightarrow> Inr (forward_gdas cell feature w index', full_cost)))"
  by (auto simp: forward_sample_def split: option.splits prod.splits sum.splits)

text \<open>
  The loop of \<^verbatim>\<open>forward\<close> over the cells runs every search cell in the behaviour that the
  flag and the weights select; with weights whose arg-max raises, the first search cell
  raises. A constructed network has a search cell.
\<close>

lemma run_cells_plain:
  "run_cells False None (Some (hardwts, index)) cs st
     = Inr (spec_layers Plain_GDAS hardwts index cs st)"
proof (induction cs arbitrary: st)
  case Nil
  then show ?case by simp
next
  case (Cons c cs)
  obtain x costs where st: "st = (x, costs)" by (cases st)
  show ?case unfolding st by (cases c) (simp_all add: Cons.IH)
qed

lemma run_cells_cost:
  "run_cells True None (Some (hardwts, index)) cs st
     = Inr (spec_layers Cost_GDAS hardwts index cs st)"
proof (induction cs arbitrary: st)
  case Nil
  then show ?case by simp
next
  case (Cons c cs)
  obtain x costs where st: "st = (x, costs)" by (cases st)
  show ?case unfolding st by (cases c) (simp_all add: Cons.IH split: prod.splits)
qed

lemma run_cells_sampled:
  "run_cells cnst None (Some (hardwts, index)) cs st
     = Inr (spec_layers (branch_of cnst None) hardwts index cs st)"
  by (cases cnst) (simp_all add: branch_of_def run_cells_plain run_cells_cost)

lemma run_cells_external:
  "max_index w = Inr idx \<Longrightarrow>
     run_cells cnst (Some w) smp cs st = Inr (spec_layers External_GDAS w idx cs st)"
proof (induction cs arbitrary: st)
  case Nil
  then show ?case by simp
next
  case (Cons c cs)
  obtain x costs where st: "st = (x, costs)" by (cases st)
  show ?case unfolding st using Cons.prems
    by (cases c) (simp_all add: Cons.IH)
qed

lemma run_cells_external_raises:
  "max_index w = Inl e \<Longrightarrow> \<exists>c. SearchCell c \<in> set cs \<Longrightarrow>
     run_cells cnst (Some w) smp cs st = Inl e"
proof (induction cs arbitrary: st)
  case Nil
  then show ?case by simp
next
  case (Cons c cs)
  obtain x costs where st: "st = (x, costs)" by (cases st)
  show ?case
  proof (cases c)
    case (SearchCell sc)
    then show ?thesis unfolding st using Cons.prems(1) by simp
  next
    case (ResNetBasicblock rb)
    then have "\<exists>c. SearchCell c \<in> set cs" using Cons.prems(2) by auto
    from Cons.IH[OF Cons.prems(1) this] show ?thesis unfolding st ResNetBasicblock by simp
  qed
qed

lemma build_cells_has_search:
  "build_cells env mx ss af tr plan Cp ne cs h = Inr (Cp', ne', cs', h') \<Longrightarrow>
   (ne \<noteq> None \<longrightarrow> (\<exists>c. SearchCell c \<in> set cs)) \<Longrightarrow>
   ne' \<noteq> None \<longrightarrow> (\<exists>c. SearchCell c \<in> set cs')"
proof (induction plan arbitrary: Cp ne cs h)
  case Nil
  then show ?case by simp
next
  case (Cons e plan)
  obtain C_curr reduction sz where e: "e = (C_curr, reduction, sz)" by (cases e)
  show ?case
  proof (cases reduction)
    case True
    obtain cell h1 where c: "new_ResNetBasicblock env Cp C_curr 2 h = (cell, h1)"
      by (cases "new_ResNetBasicblock env Cp C_curr 2 h") auto
    have r: "build_cells env mx ss af tr plan (rb_out_dim cell) ne (cs @ [ResNetBasicblock cell]) h1
             = Inr (Cp', ne', cs', h')"
      using Cons.prems(1) e True c by simp
    have "ne \<noteq> None \<longrightarrow> (\<exists>c. SearchCell c \<in> set (cs @ [ResNetBasicblock cell]))"
      using Cons.prems(2) by auto
    from Cons.IH[OF r this] show ?thesis .
  next
    case False
    obtain cell h1 where c: "new_SearchCell env Cp C_curr 1 mx ss sz af tr h = (cell, h1)"
      by (cases "new_SearchCell env Cp C_curr 1 mx ss sz af tr h") auto
    obtain ne1 where r: "build_cells env mx ss af tr plan (sc_out_dim cell) ne1 (cs @ [SearchCell cell]) h1
             = Inr (Cp', ne', cs', h')"
      using Cons.prems(1) e False c by (auto split: option.splits if_splits)
    have "ne1 \<noteq> None \<longrightarrow> (\<exists>c. SearchCell c \<in> set (cs @ [SearchCell cell]))" by auto
    from Cons.IH[OF r this] show ?thesis .
  qed
qed

lemma construct_has_search:
  assumes "construct env C N mx nc ss af tr s h0 = Inr (net, h)"
  shows "\<exists>c. SearchCell c \<in> set (cells net)"
proof -
  from assms obtain h2 C_prev num_edge e2i h3 where
    "build_cells env mx ss af tr (layer_plan C N s) C None [] h2
       = Inr (C_prev, Some (num_edge, e2i), cells net, h3)"
    by (rule construct_Inr) simp
  from build_cells_has_search[OF this] show ?thesis by simp
qed

section \<open>The small instance, evaluated\<close>

lemmas example_defs = example_torch_def example_net_def example_ops_def example_cell_def
  example_block_def example_module_def example_weights_def example_edges_def

lemma example_construct:
  "construct example_torch 8 1 3 10 example_ops False True 32 0 = Inr (example_net, 13)"
  by (simp add: construct_def layer_plan_def layer_channels_def layer_reductions_def
        layer_sizes_def example_defs eval_nat_numeral)

lemma example_torch_ok: "torch_ok example_torch"
  by (simp add: torch_ok_def alloc_ok_def example_defs)

lemma example_genotype:
  "genotype example_net (Some example_weights) =
     Inr [[(''skip_connect'', 0)], [(''none'', 0), (''nor_conv_3x3'', 1)]]"
  by (simp add: genotype_def genotype_edge_def node_str_def str_nat.simps example_defs
        beats_def isnan_def upt_conv_Cons)

lemma example_forward:
  "forward example_torch example_net mn k 0 (Some example_weights) = Some (Inr ((14, 15, 0), k))"
  by (simp add: forward_def forward_sample_def Sequential_def unique_def example_defs beats_def
        isnan_def)

lemma example_sample:
  "sample_loop pick_first (replicate 3 (replicate 3 (Fin 0))) k =
     Some (Inr (\<lparr>s_probs = replicate 3 (replicate 3 (Fin (1 / 3))), s_index = [0, 0, 0],
                 s_one_h = replicate 3 [Fin 1, Fin 0, Fin 0],
                 s_hardwts = replicate 3 [Fin 1, Fin 0, Fin 0]\<rparr>, Suc k))"
proof -
  have sm: "softmax (replicate 3 (replicate 3 (Fin 0))) = replicate 3 (replicate 3 (Fin (1 / 3)))"
    by (simp add: softmax_def softmax_row_def eval_nat_numeral)
  have "\<not> any_isinf (softmax (replicate 3 (replicate 3 (Fin 0))))"
       "\<not> any_isnan (softmax (replicate 3 (replicate 3 (Fin 0))))"
    unfolding sm by (simp_all add: any_isinf_def any_isnan_def isinf_def isnan_def)
  from sample_loop_once[OF this] show ?thesis
    unfolding sm
    by (simp add: pick_first_def zeros_like_def straight_through_def fp_sub_def eval_nat_numeral)
qed

lemma example_construct_zero:
  "construct example_torch 8 1 3 10 example_ops False True 0 0
     = Inr (example_net\<lparr>const := False\<rparr>, 13)"
  by (simp add: construct_def layer_plan_def layer_channels_def layer_reductions_def
        layer_sizes_def example_defs eval_nat_numeral)

lemma example_spec_forward:
  "spec_forward example_torch example_net Cost_GDAS pick_first 0 0 None
     = Some (Inr ((5, 6, 3), 1))"
  "spec_forward example_torch (example_net\<lparr>const := False\<rparr>) Plain_GDAS pick_first 0 0 None
     = Some (Inr ((5, 6, 0), 1))"
  "spec_forward example_torch example_net External_GDAS pick_first 0 0 (Some example_weights)
     = Some (Inr ((14, 15, 0), 0))"
proof -
  have ap: "arch_parameters example_net = replicate 3 (replicate 3 (Fin 0))"
    "arch_parameters (example_net\<lparr>const := False\<rparr>) = replicate 3 (replicate 3 (Fin 0))"
    by (simp_all add: example_net_def)
  have sel: "spec_selection pick_first (replicate 3 (replicate 3 (Fin 0))) 0 None
      = Some (Inr ((replicate 3 [Fin 1, Fin 0, Fin 0], [0, 0, 0]), 1))"
    by (simp add: spec_selection_def example_sample)
  show "spec_forward example_torch example_net Cost_GDAS pick_first 0 0 None
     = Some (Inr ((5, 6, 3), 1))"
    unfolding spec_forward_def ap sel
    by (simp add: Sequential_def unique_def example_defs)
  show "spec_forward example_torch (example_net\<lparr>const := False\<rparr>) Plain_GDAS pick_first 0 0 None
     = Some (Inr ((5, 6, 0), 1))"
    unfolding spec_forward_def ap sel
    by (simp add: Sequential_def unique_def example_defs)
  show "spec_forward example_torch example_net External_GDAS pick_first 0 0 (Some example_weights)
     = Some (Inr ((14, 15, 0), 0))"
    by (simp add: spec_forward_def spec_selection_def Sequential_def unique_def example_defs
          beats_def isnan_def)
qed

section \<open>The claims\<close>

text \<open>
  C1, as stated: the plan is \<open>N\<close> normal cells and one reduction, three times over. It
  is not: for \<open>C = 8\<close>, \<open>N = 1\<close> and input size 32 the plan has five entries, two of
  them reductions, and ends with a normal cell.
\<close>

theorem layer_plan_not_three_groups:
  "map (\<lambda>(c, r, s). r) (layer_plan 8 1 32) = [False, True, False, True, False]
   \<and> map (\<lambda>(c, r, s). r) (layer_plan 8 1 32) \<noteq> three_groups 1"
  by (simp add: layer_plan_def layer_channels_def layer_reductions_def layer_sizes_def
        three_groups_def eval_nat_numeral)

text \<open>
  C1, amended: the plan is three stages of \<open>N\<close> normal cells at channel widths \<open>C\<close>,
  \<open>2C\<close>, \<open>4C\<close> and sizes \<open>s\<close>, \<open>s/2\<close>, \<open>s/4\<close>, with one reduction between
  consecutive stages (two reductions, \<open>3N + 2\<close> entries); each reduction carries the width
  and the size of the stage that follows it.
\<close>

theorem layer_plan_stages:
  "layer_plan C N s =
     replicate (nat N) (C, False, s) @ [(C * 2, True, s / 2)]
       @ replicate (nat N) (C * 2, False, s / 2) @ [(C * 4, True, s / 4)]
       @ replicate (nat N) (C * 4, False, s / 4)"
  by (simp add: layer_plan_def layer_channels_def layer_reductions_def layer_sizes_def
        zip_replicate)

theorem layer_plan_stages_witness:
  "layer_plan 8 1 32 = [(8, False, 32), (16, True, 16), (16, False, 16), (32, True, 8), (32, False, 8)]"
  using layer_plan_stages[of 8 1 32] by simp

text \<open>
  C2, as stated: for every architecture parameter matrix the loop ends with an accepted
  draw. It does not for the matrix \<open>[[NaN]]\<close>: the probabilities are not-a-number in
  every round, so with a sampler that returns a draw the loop runs forever, and with a
  sampler that checks its argument the first round raises.
\<close>

theorem sample_loop_nan_no_draw:
  "sample_loop pick_first [[NaN]] 0 = None
   \<and> sample_loop pick_first_checked [[NaN]] 0 = Some (Inl RuntimeError)"
proof
  show "sample_loop pick_first [[NaN]] 0 = None"
    using sample_loop_first_forever[of pick_first "[[NaN]]" 0]
    by (cases "sample_loop pick_first [[NaN]] 0") auto
  show "sample_loop pick_first_checked [[NaN]] 0 = Some (Inl RuntimeError)"
    by (subst sample_loop.simps)
       (simp add: pick_first_checked_def softmax_def softmax_row_def any_isnan_def isnan_def)
qed

text \<open>
  C2, amended: for every architecture parameter matrix whose probability rows are all
  finite the loop ends in its first round, with an error of a primitive or with the first
  draw accepted; a draw is discarded exactly when a probability row holds infinity or
  not-a-number, and for such a matrix no round ever accepts a draw.
\<close>

theorem sample_loop_terminates:
  "(\<not> any_isinf (softmax ap) \<and> \<not> any_isnan (softmax ap) \<longrightarrow>
      sample_loop mn ap k \<noteq> None \<and>
      (\<forall>index one_h. mn k (softmax ap) = Inr index \<and>
           scatter (zeros_like (softmax ap)) index (Fin 1) = Inr one_h \<longrightarrow>
         sample_loop mn ap k =
           Some (Inr (\<lparr>s_probs = softmax ap, s_index = index, s_one_h = one_h,
                       s_hardwts = straight_through one_h (softmax ap)\<rparr>, Suc k))))
   \<and> (any_isinf (softmax ap) \<or> any_isnan (softmax ap) \<longrightarrow> \<not> accepted (sample_loop mn ap k))"
proof (intro conjI impI allI)
  assume "\<not> any_isinf (softmax ap) \<and> \<not> any_isnan (softmax ap)"
  then show "sample_loop mn ap k \<noteq> None"
    by (simp add: sample_loop_once split: sum.splits)
next
  fix index one_h
  assume "\<not> any_isinf (softmax ap) \<and> \<not> any_isnan (softmax ap)"
    and "mn k (softmax ap) = Inr index \<and> scatter (zeros_like (softmax ap)) index (Fin 1) = Inr one_h"
  then show "sample_loop mn ap k =
           Some (Inr (\<lparr>s_probs = softmax ap, s_index = index, s_one_h = one_h,
                       s_hardwts = straight_through one_h (softmax ap)\<rparr>, Suc k))"
    by (simp add: sample_loop_once)
next
  assume "any_isinf (softmax ap) \<or> any_isnan (softmax ap)"
  then show "\<not> accepted (sample_loop mn ap k)"
    using sample_loop_rejects[of mn ap k]
    by (auto simp: accepted_def split: option.splits sum.splits)
qed

theorem sample_loop_terminates_witness:
  "\<not> any_isinf (softmax [[Fin 0, Fin 0]]) \<and> \<not> any_isnan (softmax [[Fin 0, Fin 0]])
   \<and> sample_loop pick_first [[Fin 0, Fin 0]] 0 =
       Some (Inr (\<lparr>s_probs = [[Fin (1 / 2), Fin (1 / 2)]], s_index = [0],
                   s_one_h = [[Fin 1, Fin 0]], s_hardwts = [[Fin 1, Fin 0]]\<rparr>, 1))
   \<and> any_isnan (softmax [[NaN]]) \<and> \<not> accepted (sample_loop pick_first [[NaN]] 0)"
proof -
  have sm: "softmax [[Fin 0, Fin 0]] = [[Fin (1 / 2), Fin (1 / 2)]]"
    by (simp add: softmax_def softmax_row_def)
  have fin: "\<not> any_isinf (softmax [[Fin 0, Fin 0]]) \<and> \<not> any_isnan (softmax [[Fin 0, Fin 0]])"
    unfolding sm by (simp add: any_isinf_def any_isnan_def isinf_def isnan_def)
  have draw: "pick_first 0 (softmax [[Fin 0, Fin 0]]) = Inr [0]
      \<and> scatter (zeros_like (softmax [[Fin 0, Fin 0]])) [0] (Fin 1) = Inr [[Fin 1, Fin 0]]"
    unfolding sm by (simp add: pick_first_def zeros_like_def)
  have st: "straight_through [[Fin 1, Fin 0]] [[Fin (1 / 2), Fin (1 / 2)]] = [[Fin 1, Fin 0]]"
    by (simp add: straight_through_def fp_sub_def)
  have nan: "any_isnan (softmax [[NaN]])"
    by (simp add: softmax_def softmax_row_def any_isnan_def isnan_def)
  from sample_loop_terminates[where ap = "[[Fin 0, Fin 0]]" and mn = pick_first and k = 0] fin draw
  have "sample_loop pick_first [[Fin 0, Fin 0]] 0 =
       Some (Inr (\<lparr>s_probs = [[Fin (1 / 2), Fin (1 / 2)]], s_index = [0],
                   s_one_h = [[Fin 1, Fin 0]], s_hardwts = [[Fin 1, Fin 0]]\<rparr>, 1))"
    unfolding sm by (simp add: st)
  moreover from sample_loop_terminates[where ap = "[[NaN]]" and mn = pick_first and k = 0] nan
  have "\<not> accepted (sample_loop pick_first [[NaN]] 0)" by simp
  ultimately show ?thesis using fin nan by simp
qed

text \<open>
  C3: when the sampler returns one index per row, the \<^verbatim>\<open>hardwts\<close> of an accepted draw
  in \<^verbatim>\<open>forward\<close> and every matrix returned by \<^verbatim>\<open>sample_weights\<close> is one-hot: every row
  sums to one, has one entry equal to one and all others equal to zero.
\<close>

theorem selection_weights_one_hot:
  assumes "sampler_shape mn"
  shows "(forward_sample mn (arch_parameters net) k None = Some (Inr (Some (hardwts, index), k'))
            \<longrightarrow> one_hot hardwts)
       \<and> (sample_weights net mn k n = Some (Inr (ws, k'')) \<longrightarrow> (\<forall>w \<in> set ws. one_hot w))"
proof (intro conjI impI)
  assume "forward_sample mn (arch_parameters net) k None = Some (Inr (Some (hardwts, index), k'))"
  then obtain s where "sample_loop mn (arch_parameters net) k = Some (Inr (s, k'))" "hardwts = s_hardwts s"
    by (auto simp: forward_sample_def split: option.splits sum.splits)
  then show "one_hot hardwts" using accepted_sample[OF _ assms] by metis
next
  assume "sample_weights net mn k n = Some (Inr (ws, k''))"
  then show "\<forall>w \<in> set ws. one_hot w"
    using sample_weights_loop_one_hot[of mn "arch_parameters net" "nat n" k "[]" ws k''] assms
    by (simp add: sample_weights_def)
qed

theorem selection_weights_one_hot_witness:
  "sampler_shape pick_first
   \<and> forward_sample pick_first (arch_parameters example_net) 0 None
       = Some (Inr (Some (replicate 3 [Fin 1, Fin 0, Fin 0], [0, 0, 0]), 1))
   \<and> one_hot (replicate 3 [Fin 1, Fin 0, Fin 0])
   \<and> sample_weights example_net pick_first 0 2
       = Some (Inr ([replicate 3 [Fin 1, Fin 0, Fin 0], replicate 3 [Fin 1, Fin 0, Fin 0]], 2))"
proof -
  have sh: "sampler_shape pick_first" by (simp add: sampler_shape_def pick_first_def)
  have ap: "arch_parameters example_net = replicate 3 (replicate 3 (Fin 0))"
    by (simp add: example_net_def)
  have f: "forward_sample pick_first (arch_parameters example_net) 0 None
       = Some (Inr (Some (replicate 3 [Fin 1, Fin 0, Fin 0], [0, 0, 0]), 1))"
    by (simp add: forward_sample_def ap example_sample)
  have w: "sample_weights example_net pick_first 0 2
       = Some (Inr ([replicate 3 [Fin 1, Fin 0, Fin 0], replicate 3 [Fin 1, Fin 0, Fin 0]], 2))"
    by (simp add: sample_weights_def ap example_sample numeral_2_eq_2)
  from selection_weights_one_hot[OF sh, of example_net 0 "replicate 3 [Fin 1, Fin 0, Fin 0]"
      "[0, 0, 0]" 1 2 "[replicate 3 [Fin 1, Fin 0, Fin 0], replicate 3 [Fin 1, Fin 0, Fin 0]]" 2]
  show ?thesis using sh f w by blast
qed

text \<open>
  C4: let \<open>t\<close> be the matrix that is decoded, the parameters of the network or the
  override. If the edge \<open>i <- j\<close> has row \<open>r\<close> in the edge index map and column \<open>c\<close> holds
  the strict maximum of row \<open>r\<close> of \<open>t\<close>, then the genotype has the operation name at
  index \<open>c\<close> as choice \<open>j\<close> of node \<open>i\<close>. Nothing is assumed about the other rows.
\<close>

theorem genotype_argmax:
  assumes "genotype net w = Inr g"
    and "1 \<le> i" "i < nat (max_nodes net)" "j < i"
    and "edge2index net (node_str i j) = Some r"
    and "t = (case w of None \<Rightarrow> arch_parameters net | Some w' \<Rightarrow> w')"
    and "c < length (t ! r)"
    and "\<forall>k<length (t ! r). k \<noteq> c \<longrightarrow> fp_less (t ! r ! k) (t ! r ! c)"
  shows "g ! (i - 1) ! j = (op_names net ! c, j)"
proof -
  have e: "genotype_edge net w i j = Inr (g ! (i - 1) ! j)"
    using genotype_entries[OF assms(1-4)] by simp
  have "argmax (t ! r) = Inr c" using assms(7,8) by (rule argmax_unique)
  then show ?thesis using e assms(5,6)
    by (auto simp: genotype_edge_def Let_def split: if_splits)
qed

theorem genotype_argmax_witness:
  "genotype example_net (Some example_weights) =
     Inr [[(''skip_connect'', 0)], [(''none'', 0), (''nor_conv_3x3'', 1)]]
   \<and> edge2index example_net (node_str 2 1) = Some 2
   \<and> example_weights ! 2 = [Fin 0, Fin 0, Fin 5]
   \<and> fp_less (example_weights ! 2 ! 0) (example_weights ! 2 ! 2)
   \<and> fp_less (example_weights ! 2 ! 1) (example_weights ! 2 ! 2)
   \<and> [[(''skip_connect'', 0)], [(''none'', 0), (''nor_conv_3x3'', 1)]] ! (2 - 1) ! 1
       = (op_names example_net ! 2, 1)"
proof -
  have e: "edge2index example_net (node_str 2 1) = Some 2"
    by (simp add: example_defs node_str_def str_nat.simps)
  have m: "\<forall>k<length (example_weights ! 2). k \<noteq> 2 \<longrightarrow>
         fp_less (example_weights ! 2 ! k) (example_weights ! 2 ! 2)"
    by (simp add: example_weights_def eval_nat_numeral less_Suc_eq)
  have n: "(1::nat) \<le> 2" "2 < nat (max_nodes example_net)" "(1::nat) < 2"
    "2 < length (example_weights ! 2)"
    by (simp_all add: example_net_def example_weights_def)
  from genotype_argmax[OF example_genotype n(1,2,3) e _ n(4) m]
  show ?thesis using example_genotype e by (simp add: example_weights_def)
qed

text \<open>
  C5: with \<open>max_nodes \<ge> 2\<close> the genotype has \<open>max_nodes - 1\<close> entries, and the entry of
  node \<open>i\<close> (at position \<open>i - 1\<close>) has \<open>i\<close> pairs whose sources are \<open>0, ..., i - 1\<close> in
  this order.
\<close>

theorem genotype_shape:
  assumes "genotype net w = Inr g" and "2 \<le> max_nodes net"
  shows "int (length g) = max_nodes net - 1
       \<and> (\<forall>i. 1 \<le> i \<and> i < nat (max_nodes net) \<longrightarrow>
            length (g ! (i - 1)) = i \<and> map snd (g ! (i - 1)) = [0..<i])"
proof (intro conjI allI impI)
  from collect_Inr[OF assms(1)[unfolded genotype_def]] assms(2)
  show "int (length g) = max_nodes net - 1" by auto
next
  fix i assume i: "1 \<le> i \<and> i < nat (max_nodes net)"
  have len: "length (g ! (i - 1)) = i"
    using genotype_entries[OF assms(1), of i 0] i by simp
  then show "length (g ! (i - 1)) = i" .
  show "map snd (g ! (i - 1)) = [0..<i]"
  proof (rule nth_equalityI)
    show "length (map snd (g ! (i - 1))) = length [0..<i]" using len by simp
  next
    fix j assume "j < length (map snd (g ! (i - 1)))"
    then have j: "j < i" using len by simp
    from genotype_entries[OF assms(1) _ _ j] i
    have "genotype_edge net w i j = Inr (g ! (i - 1) ! j)" by simp
    from genotype_edge_snd[OF this] j len show "map snd (g ! (i - 1)) ! j = [0..<i] ! j" by simp
  qed
qed

theorem genotype_shape_witness:
  "genotype example_net (Some example_weights) =
     Inr [[(''skip_connect'', 0)], [(''none'', 0), (''nor_conv_3x3'', 1)]]
   \<and> 2 \<le> max_nodes example_net
   \<and> int (length [[(''skip_connect'', 0::nat)], [(''none'', 0), (''nor_conv_3x3'', 1)]])
       = max_nodes example_net - 1
   \<and> map snd ([[(''skip_connect'', 0::nat)], [(''none'', 0), (''nor_conv_3x3'', 1)]] ! (2 - 1))
       = [0..<2]"
proof -
  have mx: "2 \<le> max_nodes example_net" "(1::nat) \<le> 2 \<and> 2 < nat (max_nodes example_net)"
    by (simp_all add: example_net_def)
  from genotype_shape[OF example_genotype mx(1)] mx(2)
  show ?thesis using example_genotype mx(1) by blast
qed

text \<open>
  C6: with external weights the result of \<^verbatim>\<open>forward\<close> (features, logits and cost, or
  the error) is the same for every sampler and every state of the random generator.
  Modules are functions of their input here.
\<close>

theorem external_weights_deterministic:
  "outcome (forward env net mn k inputs (Some w)) = outcome (forward env net mn' k' inputs (Some w))"
  by (simp add: forward_def forward_sample_def outcome_def Let_def split: sum.splits prod.splits)

theorem external_weights_deterministic_witness:
  "outcome (forward example_torch example_net pick_first 0 0 (Some example_weights))
     = outcome (forward example_torch example_net pick_first_checked 7 0 (Some example_weights))
   \<and> outcome (forward example_torch example_net pick_first 0 0 (Some example_weights))
     = Some (Inr (14, 15, 0))"
  using external_weights_deterministic[of example_torch example_net pick_first 0 0
      example_weights pick_first_checked 7]
  by (simp add: example_forward outcome_def)

text \<open>
  C7: a constructed network has its flag \<^verbatim>\<open>const\<close> set exactly when the input size is
  not zero, and every call of \<^verbatim>\<open>forward\<close> on it, with or without weights, computes what
  the specification's forward pass computes when every search cell is run in the one
  behaviour selected by that flag and the weights: the plain GDAS forward exactly when no
  weights are given and the flag is off, the cost-accumulating forward exactly when no
  weights are given and the flag is on, the external-weights forward exactly when weights
  are given.
\<close>

theorem forward_branches:
  "(construct env C N mx nc ss af tr inp_size h0 = Inr (net, h) \<longrightarrow>
      const net = (inp_size \<noteq> 0)
      \<and> forward env net mn k inputs weights
          = spec_forward env net (branch_of (inp_size \<noteq> 0) weights) mn k inputs weights)
   \<and> (branch_of flag weights = Plain_GDAS \<longleftrightarrow> weights = None \<and> \<not> flag)
   \<and> (branch_of flag weights = Cost_GDAS \<longleftrightarrow> weights = None \<and> flag)
   \<and> (branch_of flag weights = External_GDAS \<longleftrightarrow> weights \<noteq> None)"
proof (intro conjI impI)
  assume c: "construct env C N mx nc ss af tr inp_size h0 = Inr (net, h)"
  then show flag: "const net = (inp_size \<noteq> 0)" by (rule construct_Inr)
  show "forward env net mn k inputs weights
          = spec_forward env net (branch_of (inp_size \<noteq> 0) weights) mn k inputs weights"
  proof (cases weights)
    case None
    then show ?thesis
      by (simp add: forward_def forward_sample_def spec_forward_def spec_selection_def
            run_cells_sampled flag Let_def split: option.splits sum.splits prod.splits)
  next
    case (Some w)
    have b: "branch_of (inp_size \<noteq> 0) (Some w) = External_GDAS" by (simp add: branch_of_def)
    show ?thesis
    proof (cases "max_index w")
      case (Inl e)
      from run_cells_external_raises[OF Inl construct_has_search[OF c]]
      show ?thesis unfolding Some b
        by (simp add: forward_def forward_sample_def spec_forward_def spec_selection_def Inl)
    next
      case (Inr idx)
      show ?thesis unfolding Some b
        by (simp add: forward_def forward_sample_def spec_forward_def spec_selection_def Inr
              run_cells_external[OF Inr] Let_def split: prod.splits)
    qed
  qed
qed (auto simp: branch_of_def)

theorem forward_branches_witness:
  "construct example_torch 8 1 3 10 example_ops False True 32 0 = Inr (example_net, 13)
   \<and> const example_net = ((32::rat) \<noteq> 0)
   \<and> branch_of ((32::rat) \<noteq> 0) None = Cost_GDAS
   \<and> forward example_torch example_net pick_first 0 0 None = Some (Inr ((5, 6, 3), 1))
   \<and> branch_of ((32::rat) \<noteq> 0) (Some example_weights) = External_GDAS
   \<and> forward example_torch example_net pick_first 0 0 (Some example_weights)
       = Some (Inr ((14, 15, 0), 0))
   \<and> construct example_torch 8 1 3 10 example_ops False True 0 0
       = Inr (example_net\<lparr>const := False\<rparr>, 13)
   \<and> branch_of ((0::rat) \<noteq> 0) None = Plain_GDAS
   \<and> forward example_torch (example_net\<lparr>const := False\<rparr>) pick_first 0 0 None
       = Some (Inr ((5, 6, 0), 1))"
proof -
  have b: "branch_of ((32::rat) \<noteq> 0) None = Cost_GDAS"
    "branch_of ((32::rat) \<noteq> 0) (Some example_weights) = External_GDAS"
    "branch_of ((0::rat) \<noteq> 0) None = Plain_GDAS"
    by (simp_all add: branch_of_def)
  from forward_branches[where env = example_torch and C = 8 and N = 1 and mx = 3 and nc = 10
      and ss = example_ops and af = False and tr = True and inp_size = 32 and ?h0.0 = 0
      and net = example_net and h = 13 and mn = pick_first and k = 0 and inputs = 0
      and weights = None] example_construct
  have 1: "const example_net = ((32::rat) \<noteq> 0)"
    "forward example_torch example_net pick_first 0 0 None = Some (Inr ((5, 6, 3), 1))"
    by (simp_all add: branch_of_def example_spec_forward)
  from forward_branches[where env = example_torch and C = 8 and N = 1 and mx = 3 and nc = 10
      and ss = example_ops and af = False and tr = True and inp_size = 32 and ?h0.0 = 0
      and net = example_net and h = 13 and mn = pick_first and k = 0 and inputs = 0
      and weights = "Some example_weights"] example_construct
  have 2: "forward example_torch example_net pick_first 0 0 (Some example_weights)
       = Some (Inr ((14, 15, 0), 0))"
    by (simp add: branch_of_def example_spec_forward)
  from forward_branches[where env = example_torch and C = 8 and N = 1 and mx = 3 and nc = 10
      and ss = example_ops and af = False and tr = True and inp_size = 0 and ?h0.0 = 0
      and net = "example_net\<lparr>const := False\<rparr>" and h = 13 and mn = pick_first and k = 0
      and inputs = 0 and weights = None] example_construct_zero
  have 3: "forward example_torch (example_net\<lparr>const := False\<rparr>) pick_first 0 0 None
       = Some (Inr ((5, 6, 0), 1))"
    by (simp add: branch_of_def example_spec_forward)
  show ?thesis using example_construct example_construct_zero b 1 2 3 by simp
qed

text \<open>
  C8: when the constructors of the tensor library are well behaved, the list of
  \<^verbatim>\<open>get_weights\<close> of a constructed network shares no parameter identity with the list of
  \<^verbatim>\<open>get_alphas\<close>, and holds exactly the parameters of the stem, the cells, the final
  normalisation, the pooling and the classifier.
\<close>

theorem weights_exclude_alphas:
  assumes "torch_ok env" and "construct env C N mx nc ss af tr s h0 = Inr (net, h)"
  shows "set (get_weights net) \<inter> set (get_alphas net) = {}
       \<and> set (get_weights net) =
           set (m_params (stem net)) \<union> (\<Union>c \<in> set (cells net). set (cell_parameters c))
           \<union> set (m_params (lastact net)) \<union> set (m_params (global_pooling net))
           \<union> set (m_params (classifier net))"
proof
  from assms(2) obtain conv h1 bn h2 C_prev num_edge e2i cs h3 bn_last h4 relu h5 pool h6 fc h7 where
    c: "Conv2d env 3 C h0 = (conv, h1)" "BatchNorm2d env C h1 = (bn, h2)"
    "build_cells env mx ss af tr (layer_plan C N s) C None [] h2 = Inr (C_prev, Some (num_edge, e2i), cs, h3)"
    "BatchNorm2d env C_prev h3 = (bn_last, h4)" "ReLU env h4 = (relu, h5)"
    "AdaptiveAvgPool2d env 1 h5 = (pool, h6)" "Linear env C_prev nc h6 = (fc, h7)"
    and n: "stem net = Sequential conv bn" "cells net = cs" "lastact net = Sequential bn_last relu"
    "global_pooling net = pool" "classifier net = fc" "arch_id net = h7"
    by (rule construct_Inr)
  note ok = torch_okD[OF assms(1)]
  have 1: "h0 \<le> h1 \<and> (\<forall>p \<in> set (m_params conv). p < h1)" using ok(1)[OF c(1)] .
  have 2: "h1 \<le> h2 \<and> (\<forall>p \<in> set (m_params bn). p < h2)" using ok(2)[OF c(2)] .
  have 3: "h2 \<le> h3 \<and> cells_below h3 cs"
    using build_cells_alloc[OF assms(1) c(3)] by (simp add: cells_below_def)
  have 4: "h3 \<le> h4 \<and> (\<forall>p \<in> set (m_params bn_last). p < h4)" using ok(2)[OF c(4)] .
  have 5: "h4 \<le> h5 \<and> (\<forall>p \<in> set (m_params relu). p < h5)" using ok(3)[OF c(5)] .
  have 6: "h5 \<le> h6 \<and> (\<forall>p \<in> set (m_params pool). p < h6)" using ok(4)[OF c(6)] .
  have 7: "h6 \<le> h7 \<and> (\<forall>p \<in> set (m_params fc). p < h7)" using ok(5)[OF c(7)] .
  have "p < h7" if "p \<in> set (get_weights net)" for p
  proof -
    from that n consider "p \<in> set (m_params conv)" | "p \<in> set (m_params bn)"
      | "\<exists>c \<in> set cs. p \<in> set (cell_parameters c)" | "p \<in> set (m_params bn_last)"
      | "p \<in> set (m_params relu)" | "p \<in> set (m_params pool)" | "p \<in> set (m_params fc)"
      by (auto simp: get_weights_def Sequential_def unique_def)
    then show ?thesis
    proof cases
      case 1 then show ?thesis using \<open>h0 \<le> h1 \<and> _\<close> 2 3 4 5 6 7 by fastforce
    next
      case 2 then show ?thesis using \<open>h1 \<le> h2 \<and> _\<close> 3 4 5 6 7 by fastforce
    next
      case 3 then show ?thesis using \<open>h2 \<le> h3 \<and> _\<close> 4 5 6 7 unfolding cells_below_def by fastforce
    next
      case 4 then show ?thesis using \<open>h3 \<le> h4 \<and> _\<close> 5 6 7 by fastforce
    next
      case 5 then show ?thesis using \<open>h4 \<le> h5 \<and> _\<close> 6 7 by fastforce
    next
      case 6 then show ?thesis using \<open>h5 \<le> h6 \<and> _\<close> 7 by fastforce
    next
      case 7 then show ?thesis using \<open>h6 \<le> h7 \<and> _\<close> by fastforce
    qed
  qed
  then show "set (get_weights net) \<inter> set (get_alphas net) = {}"
    using n(6) by (auto simp: get_alphas_def)
next
  show "set (get_weights net) =
           set (m_params (stem net)) \<union> (\<Union>c \<in> set (cells net). set (cell_parameters c))
           \<union> set (m_params (lastact net)) \<union> set (m_params (global_pooling net))
           \<union> set (m_params (classifier net))"
    by (auto simp: get_weights_def unique_def)
qed

theorem weights_exclude_alphas_witness:
  "torch_ok example_torch
   \<and> construct example_torch 8 1 3 10 example_ops False True 32 0 = Inr (example_net, 13)
   \<and> get_weights example_net = [0, 1, 2, 3, 4, 5, 6, 7, 8, 9, 10, 11]
   \<and> get_alphas example_net = [12]
   \<and> set (get_weights example_net) \<inter> set (get_alphas example_net) = {}"
proof -
  have "get_weights example_net = [0, 1, 2, 3, 4, 5, 6, 7, 8, 9, 10, 11]"
    by (simp add: get_weights_def Sequential_def unique_def example_defs)
  moreover have "get_alphas example_net = [12]"
    by (simp add: get_alphas_def example_net_def)
  ultimately show ?thesis
    using weights_exclude_alphas[OF example_torch_ok example_construct]
      example_torch_ok example_construct by blast
qed

text \<open>
  C9: in a constructed network every search cell reports the edge map of the network and
  the same edge count; and if, after a prefix of the plan has been built with a first
  search cell, the search cell of the next plan entry reports another edge count or
  another edge map, construction ends with the assertion error.
\<close>

theorem construct_checks_edges:
  "(construct env C N mx nc ss af tr s h0 = Inr (net, h) \<longrightarrow>
      (\<forall>c. SearchCell c \<in> set (cells net) \<longrightarrow>
         sc_edge2index c = edge2index net \<and>
         (\<forall>c'. SearchCell c' \<in> set (cells net) \<longrightarrow> sc_num_edges c' = sc_num_edges c)))
   \<and> (layer_plan C N s = pre @ (C_curr, False, sz) # post \<and>
      build_cells env mx ss af tr pre C None []
          (snd (BatchNorm2d env C (snd (Conv2d env 3 C h0))))
        = Inr (C_prev, Some (num_edge, e2i), cs, h1) \<and>
      new_SearchCell env C_prev C_curr 1 mx ss sz af tr h1 = (cell, h2) \<and>
      (num_edge \<noteq> sc_num_edges cell \<or> e2i \<noteq> sc_edge2index cell)
      \<longrightarrow> construct env C N mx nc ss af tr s h0 = Inl AssertionError)"
proof (intro conjI impI)
  assume c: "construct env C N mx nc ss af tr s h0 = Inr (net, h)"
  then obtain h' C_prev' num_edge' cs' h3 where
    b: "build_cells env mx ss af tr (layer_plan C N s) C None [] h' = Inr (C_prev', Some (num_edge', edge2index net), cs', h3)"
    and n: "cells net = cs'"
    unfolding construct_def Let_def by (auto split: prod.splits sum.splits option.splits)
  have "agree (Some (num_edge', edge2index net)) cs'"
    using build_cells_agree[OF b] by (simp add: agree_def)
  then show "\<forall>c. SearchCell c \<in> set (cells net) \<longrightarrow>
         sc_edge2index c = edge2index net \<and>
         (\<forall>c'. SearchCell c' \<in> set (cells net) \<longrightarrow> sc_num_edges c' = sc_num_edges c)"
    using n by (auto simp: agree_def)
next
  assume a: "layer_plan C N s = pre @ (C_curr, False, sz) # post \<and>
      build_cells env mx ss af tr pre C None []
          (snd (BatchNorm2d env C (snd (Conv2d env 3 C h0))))
        = Inr (C_prev, Some (num_edge, e2i), cs, h1) \<and>
      new_SearchCell env C_prev C_curr 1 mx ss sz af tr h1 = (cell, h2) \<and>
      (num_edge \<noteq> sc_num_edges cell \<or> e2i \<noteq> sc_edge2index cell)"
  then have "build_cells env mx ss af tr (layer_plan C N s) C None []
          (snd (BatchNorm2d env C (snd (Conv2d env 3 C h0)))) = Inl AssertionError"
    using build_cells_mismatch[of env C_prev C_curr mx ss sz af tr h1 cell h2 num_edge e2i post cs]
    by (simp add: build_cells_append del: build_cells.simps)
  then show "construct env C N mx nc ss af tr s h0 = Inl AssertionError"
    unfolding construct_def Let_def by (auto split: prod.splits)
qed

theorem construct_checks_edges_witness:
  "construct example_torch 8 1 3 10 example_ops False True 32 0 = Inr (example_net, 13)
   \<and> SearchCell (example_cell 3 16 5) \<in> set (cells example_net)
   \<and> SearchCell (example_cell 3 32 7) \<in> set (cells example_net)
   \<and> sc_edge2index (example_cell 3 16 5) = edge2index example_net
   \<and> sc_num_edges (example_cell 3 32 7) = sc_num_edges (example_cell 3 16 5)
   \<and> layer_plan 8 1 32 = [(8, False, 32), (16, True, 16)] @ (16, False, 16) # [(32, True, 8), (32, False, 8)]
   \<and> sc_num_edges (fst (new_SearchCell skewed_torch 16 16 1 3 example_ops 16 False True 5)) = 16
   \<and> construct skewed_torch 8 1 3 10 example_ops False True 32 0 = Inl AssertionError"
proof -
  have plan: "layer_plan 8 1 32
      = [(8, False, 32), (16, True, 16)] @ (16, False, 16) # [(32, True, 8), (32, False, 8)]"
    by (simp add: layer_plan_def layer_channels_def layer_reductions_def layer_sizes_def)
  have pre: "build_cells skewed_torch 3 example_ops False True [(8, False, 32), (16, True, 16)] 8 None []
          (snd (BatchNorm2d skewed_torch 8 (snd (Conv2d skewed_torch 3 8 0))))
        = Inr (16, Some (8, example_edges),
               [SearchCell (example_cell 8 8 3), ResNetBasicblock (example_block 16 4)], 5)"
    by (simp add: skewed_torch_def example_defs eval_nat_numeral)
  have cell: "new_SearchCell skewed_torch 16 16 1 3 example_ops 16 False True 5 = (example_cell 16 16 5, 6)"
    by (simp add: skewed_torch_def example_torch_def)
  have ne: "8 \<noteq> sc_num_edges (example_cell 16 16 5) \<or> example_edges \<noteq> sc_edge2index (example_cell 16 16 5)"
    by (simp add: example_cell_def)
  have mem: "SearchCell (example_cell 3 16 5) \<in> set (cells example_net)"
    "SearchCell (example_cell 3 32 7) \<in> set (cells example_net)"
    by (simp_all add: example_net_def)
  from construct_checks_edges[of example_torch 8 1 3 10 example_ops False True 32 0 example_net 13]
    example_construct mem
  have a: "sc_edge2index (example_cell 3 16 5) = edge2index example_net
      \<and> sc_num_edges (example_cell 3 32 7) = sc_num_edges (example_cell 3 16 5)"
    by blast
  from construct_checks_edges[of skewed_torch 8 1 3 10 example_ops False True 32 0 _ _
      "[(8, False, 32), (16, True, 16)]" 16 16 "[(32, True, 8), (32, False, 8)]" 16 8 example_edges
      "[SearchCell (example_cell 8 8 3), ResNetBasicblock (example_block 16 4)]" 5
      "example_cell 16 16 5" 6] plan pre cell ne
  have b: "construct skewed_torch 8 1 3 10 example_ops False True 32 0 = Inl AssertionError"
    by blast
  show ?thesis using example_construct mem a plan cell b by (simp add: example_cell_def)
qed

text \<open>
  C10: with external weights \<^verbatim>\<open>forward\<close> always returns, and the cost it returns is
  zero, whatever the flag \<^verbatim>\<open>const\<close> of the network.
\<close>

theorem external_weights_cost_zero:
  "forward env net mn k inputs (Some w) \<noteq> None \<and>
   (\<forall>out logits cost k'. forward env net mn k inputs (Some w) = Some (Inr ((out, logits, cost), k'))
      \<longrightarrow> cost = 0)"
  by (auto simp: forward_def forward_sample_def Let_def split: sum.splits prod.splits
           dest!: run_cells_external_cost)

theorem external_weights_cost_zero_witness:
  "const example_net
   \<and> forward example_torch example_net pick_first 0 0 (Some example_weights)
       = Some (Inr ((14, 15, 0), 0))"
proof -
  have c: "const example_net" by (simp add: example_net_def)
  from external_weights_cost_zero[of example_torch example_net pick_first 0 0 example_weights]
  show ?thesis using c by (simp add: example_forward)
qed

end
